theory Spec2Isabelle
  imports Main
begin

section \<open>Data model (types/chess.ts)\<close>

text \<open>
  The interfaces of the repository, field by field. Coordinates are JavaScript numbers;
  the engine only ever adds and compares integers, so they are \<open>int\<close> here. The optional
  flag \<open>hasMoved\<close> is only tested for truthiness and only ever set to \<open>true\<close>, so an
  absent flag and \<open>false\<close> are the same \<open>False\<close>. \<open>NoType\<close> is the value \<open>undefined\<close>
  that the lookup \<open>typeMap[char.toLowerCase()]\<close> of \<open>FENCharToPiece\<close> yields for a
  letter outside \<open>kqrbnp\<close>; it is what the \<open>default\<close> branch of the engine's
  \<open>switch (piece.type)\<close> receives.
\<close>

datatype PieceType = King | Queen | Rook | Bishop | Knight | Pawn | NoType

datatype PieceColor = White | Black

record ChessPiece =
  ptype :: PieceType
  color :: PieceColor
  pid :: string
  hasMoved :: bool

record Position =
  row :: int
  col :: int

record ChessMove =
  mfrom :: Position
  mto :: Position
  piece :: ChessPiece
  capturedPiece :: "ChessPiece option"
  isCheck :: "bool option"
  isCheckmate :: "bool option"
  isStalemate :: "bool option"
  isCastling :: bool
  isEnPassant :: bool
  promotion :: "PieceType option"
  notationText :: string

datatype GameStatus = Playing | Check | Checkmate | Stalemate | Draw

record CastlingRights =
  whiteKingSide :: bool
  whiteQueenSide :: bool
  blackKingSide :: bool
  blackQueenSide :: bool

text \<open>
  A cell of the grid is \<open>ChessPiece | null\<close>; a read past the end of a row gives
  \<open>undefined\<close>. The code tests cells for truthiness only, so both are \<open>None\<close>.
\<close>

type_synonym Cell = "ChessPiece option"

type_synonym Board = "Cell list list"

record GameState =
  board :: Board
  currentPlayer :: PieceColor
  moveHistory :: "ChessMove list"
  capturedPieces :: "ChessPiece list"
  gameStatus :: GameStatus
  winner :: "PieceColor option"
  lastMove :: "ChessMove option"
  enPassantTarget :: "Position option"
  castlingRights :: CastlingRights

section \<open>Array access as JavaScript does it\<close>

text \<open>
  Every function below that can raise returns an \<open>option\<close>: \<open>None\<close> is "the call does
  not return a value" (a \<open>TypeError\<close> is thrown, or the loop never ends), \<open>Some v\<close> is
  the returned value. \<open>board[r][c]\<close> throws when \<open>board[r]\<close> is \<open>undefined\<close> (no such
  row) and reads \<open>undefined\<close> when the row exists and has no index \<open>c\<close>.
\<close>

definition rowRead :: "Cell list \<Rightarrow> int \<Rightarrow> Cell" where
  "rowRead r c = (if 0 \<le> c \<and> c < int (length r) then r ! nat c else None)"

definition boardRead :: "Board \<Rightarrow> int \<Rightarrow> int \<Rightarrow> Cell option" where
  "boardRead b r c =
     (if 0 \<le> r \<and> r < int (length b) then Some (rowRead (b ! nat r) c) else None)"

text \<open>
  \<open>board[r][c] = v\<close> throws when there is no row \<open>r\<close>; an index past the end of the
  row extends the array, the holes reading \<open>undefined\<close>. Every write of the repository
  is at a column that \<open>isValidPosition\<close> has checked or that is a literal, so the
  column is never negative there; the model leaves the row as it is for one.
\<close>

definition rowWrite :: "Cell list \<Rightarrow> int \<Rightarrow> Cell \<Rightarrow> Cell list" where
  "rowWrite r c v =
     (if c < 0 then r
      else if c < int (length r) then r[nat c := v]
      else r @ replicate (nat c - length r) None @ [v])"

definition boardWrite :: "Board \<Rightarrow> int \<Rightarrow> int \<Rightarrow> Cell \<Rightarrow> Board option" where
  "boardWrite b r c v =
     (if 0 \<le> r \<and> r < int (length b) then Some (b[nat r := rowWrite (b ! nat r) c v])
      else None)"

text \<open>The nested loops \<open>for row in 0..7, for col in 0..7\<close>, in their order.\<close>

definition squares :: "(int \<times> int) list" where
  "squares = List.product [0..7] [0..7]"

section \<open>Board query helpers (lib/chess-utils.ts)\<close>

definition isValidPosition :: "Position \<Rightarrow> bool" where
  "isValidPosition pos = (row pos \<ge> 0 \<and> row pos < 8 \<and> col pos \<ge> 0 \<and> col pos < 8)"

definition positionsEqual :: "Position \<Rightarrow> Position \<Rightarrow> bool" where
  "positionsEqual pos1 pos2 = (row pos1 = row pos2 \<and> col pos1 = col pos2)"

definition getPieceAt :: "Board \<Rightarrow> Position \<Rightarrow> Cell option" where
  "getPieceAt b pos =
     (if \<not> isValidPosition pos then Some None else boardRead b (row pos) (col pos))"

definition opponent :: "PieceColor \<Rightarrow> PieceColor" where
  "opponent c = (if c = White then Black else White)"

section \<open>Rules engine (lib/chess-engine.ts)\<close>

definition isPawnMoveValid ::
  "ChessPiece \<Rightarrow> Position \<Rightarrow> Position \<Rightarrow> GameState \<Rightarrow> bool option" where
  "isPawnMoveValid pc from to gs =
     (let direction = (if color pc = White then -1 else 1 :: int);
          rowDiff = row to - row from;
          colDiff = col to - col from
      in case getPieceAt (board gs) to of
           None \<Rightarrow> None
         | Some targetPiece \<Rightarrow>
             if colDiff = 0 \<and> targetPiece \<noteq> None then Some False
             else if colDiff = 0 \<and> rowDiff = direction then Some True
             else if colDiff = 0 \<and> rowDiff = 2 * direction \<and>
                     ((color pc = White \<and> row from = 6) \<or>
                      (color pc = Black \<and> row from = 1)) then Some True
             else if \<bar>colDiff\<bar> = 1 \<and> rowDiff = direction \<and>
                     (case targetPiece of None \<Rightarrow> False
                      | Some t \<Rightarrow> color t \<noteq> color pc) then Some True
             else if \<bar>colDiff\<bar> = 1 \<and> rowDiff = direction \<and>
                     (case enPassantTarget gs of None \<Rightarrow> False
                      | Some ep \<Rightarrow> positionsEqual to ep) then Some True
             else Some False)"

text \<open>
  The \<open>while\<close> loop of \<open>isPathClear\<close>. It ends when the walk reaches \<open>to\<close>, returns
  \<open>false\<close> at the first occupied square, and throws when the walk leaves the rows of
  the grid. With steps that do not lead to \<open>to\<close> along an existing row it would never
  end, so it is a partial function: \<open>None\<close> is "no value".
\<close>

partial_function (option) pathLoop ::
  "Board \<Rightarrow> Position \<Rightarrow> int \<Rightarrow> int \<Rightarrow> int \<Rightarrow> int \<Rightarrow> bool option" where
  "pathLoop b to rowStep colStep r c =
     (if r \<noteq> row to \<or> c \<noteq> col to then
        (case boardRead b r c of
           None \<Rightarrow> None
         | Some (Some p) \<Rightarrow> Some False
         | Some None \<Rightarrow> pathLoop b to rowStep colStep (r + rowStep) (c + colStep))
      else Some True)"

declare pathLoop.simps [code]

definition isPathClear :: "Position \<Rightarrow> Position \<Rightarrow> Board \<Rightarrow> bool option" where
  "isPathClear from to b =
     (let rowStep = (if row to = row from then 0 else if row to > row from then 1 else -1);
          colStep = (if col to = col from then 0 else if col to > col from then 1 else -1)
      in pathLoop b to rowStep colStep (row from + rowStep) (col from + colStep))"

text \<open>The loop of \<open>isCastlingValid\<close> over the columns between king and rook.\<close>

fun castlingPathLoop :: "Board \<Rightarrow> int \<Rightarrow> int list \<Rightarrow> bool option" where
  "castlingPathLoop b r [] = Some True"
| "castlingPathLoop b r (c # cs) =
     (case boardRead b r c of
        None \<Rightarrow> None
      | Some (Some p) \<Rightarrow> Some False
      | Some None \<Rightarrow> castlingPathLoop b r cs)"

subsection \<open>Why the attack scan and the castling test call each other only twice\<close>

text \<open>
  \<open>isSquareUnderAttack\<close> asks \<open>isPieceMovementValid\<close> about every piece of the attacking
  colour; for a king that is not next to the square this is \<open>isCastlingValid\<close>, which
  asks \<open>isSquareUnderAttack\<close> again, for the other colour. The recursion stops because two
  kings of different colours cannot both pass the rook and empty-path tests of
  \<open>isCastlingValid\<close> towards each other: \<open>castleReady\<close> collects those tests, and
  \<open>castleReady_blocks\<close> is the argument. \<open>engineMeasure\<close> orders the calls.
\<close>

definition adjacent :: "Position \<Rightarrow> Position \<Rightarrow> bool" where
  "adjacent from to = (\<bar>row to - row from\<bar> \<le> 1 \<and> \<bar>col to - col from\<bar> \<le> 1)"

definition castleReady :: "ChessPiece \<Rightarrow> Position \<Rightarrow> Position \<Rightarrow> GameState \<Rightarrow> bool" where
  "castleReady pc from to gs =
     (row from = row to \<and>
      (let rookCol = (if col to > col from then 7 else 0 :: int)
       in (\<exists>rk. getPieceAt (board gs) \<lparr>row = row from, col = rookCol\<rparr> = Some (Some rk) \<and>
                 color rk = color pc) \<and>
          castlingPathLoop (board gs) (row from)
            [min (col from) rookCol + 1 .. max (col from) rookCol - 1] = Some True))"

definition attackLevel :: "(int \<times> int) list \<Rightarrow> Position \<Rightarrow> PieceColor \<Rightarrow> GameState \<Rightarrow> nat" where
  "attackLevel sqs position byColor gs =
     (if \<exists>sq \<in> set sqs. \<exists>pc. boardRead (board gs) (fst sq) (snd sq) = Some (Some pc) \<and>
            color pc = byColor \<and>
            \<not> adjacent \<lparr>row = fst sq, col = snd sq\<rparr> position \<and>
            castleReady pc \<lparr>row = fst sq, col = snd sq\<rparr> position gs
      then 1 else 0)"

definition pathLevel :: "int list \<Rightarrow> int \<Rightarrow> PieceColor \<Rightarrow> GameState \<Rightarrow> nat" where
  "pathLevel cs r byColor gs =
     (if \<exists>c \<in> set cs. attackLevel squares \<lparr>row = r, col = c\<rparr> byColor gs = 1 then 1 else 0)"

definition engineMeasure ::
  "(ChessPiece \<times> Position \<times> Position \<times> GameState + ChessPiece \<times> Position \<times> Position \<times> GameState) +
   (int list \<times> int \<times> PieceColor \<times> GameState) +
   (Position \<times> PieceColor \<times> GameState) +
   ((int \<times> int) list \<times> Position \<times> PieceColor \<times> GameState) \<Rightarrow> nat \<times> nat \<times> nat" where
  "engineMeasure x =
     (case x of
        Inl (Inl (pc, from, to, gs)) \<Rightarrow>
          (if \<not> adjacent from to \<and> castleReady pc from to gs then 1 else 0, 1, 0)
      | Inl (Inr (pc, from, to, gs)) \<Rightarrow> (if castleReady pc from to gs then 1 else 0, 0, 0)
      | Inr (Inl (cs, r, byColor, gs)) \<Rightarrow> (pathLevel cs r byColor gs, 4, length cs)
      | Inr (Inr (Inl (position, byColor, gs))) \<Rightarrow> (attackLevel squares position byColor gs, 3, 0)
      | Inr (Inr (Inr (sqs, position, byColor, gs))) \<Rightarrow>
          (attackLevel sqs position byColor gs, 2, length sqs))"

lemma castlingPathLoop_clear:
  "castlingPathLoop b r cs = Some True \<Longrightarrow> c \<in> set cs \<Longrightarrow> boardRead b r c = Some None"
  by (induction cs) (auto split: option.splits bool.splits)

lemma squares_range: "sq \<in> set squares \<Longrightarrow> 0 \<le> snd sq \<and> snd sq \<le> 7"
  by (auto simp: squares_def)

lemma castleReady_blocks:
  assumes ready: "castleReady pc from to gs"
    and c: "c \<in> {col from, col from + 1, col from + 2} \<and> col to > col from \<or>
            c \<in> {col from, col from - 1, col from - 2} \<and> \<not> col to > col from"
  shows "attackLevel squares \<lparr>row = row from, col = c\<rparr> (opponent (color pc)) gs = 0"
proof (rule ccontr)
  assume "attackLevel squares \<lparr>row = row from, col = c\<rparr> (opponent (color pc)) gs \<noteq> 0"
  then obtain sq k where sq: "sq \<in> set squares"
    and k: "boardRead (board gs) (fst sq) (snd sq) = Some (Some k)"
    and kc: "color k = opponent (color pc)"
    and far: "\<not> adjacent \<lparr>row = fst sq, col = snd sq\<rparr> \<lparr>row = row from, col = c\<rparr>"
    and kready: "castleReady k \<lparr>row = fst sq, col = snd sq\<rparr> \<lparr>row = row from, col = c\<rparr> gs"
    by (auto simp: attackLevel_def split: if_splits)
  define f where "f = col from"
  define b where "b = snd sq"
  have b07: "0 \<le> b" "b \<le> 7" using squares_range[OF sq] by (auto simp: b_def)
  have samerow: "fst sq = row from" using kready by (simp add: castleReady_def)
  have farc: "b \<le> c - 2 \<or> b \<ge> c + 2"
    using far samerow by (auto simp: adjacent_def b_def)
  define rc where "rc = (if col to > col from then 7 else 0 :: int)"
  define rc' where "rc' = (if c > b then 7 else 0 :: int)"
  obtain rk where rk: "getPieceAt (board gs) \<lparr>row = row from, col = rc\<rparr> = Some (Some rk)"
    and rkc: "color rk = color pc"
    and path: "castlingPathLoop (board gs) (row from) [min f rc + 1 .. max f rc - 1] = Some True"
    using ready by (auto simp: castleReady_def rc_def f_def Let_def)
  obtain rk' where rk': "getPieceAt (board gs) \<lparr>row = row from, col = rc'\<rparr> = Some (Some rk')"
    and rkc': "color rk' = color k"
    using kready samerow by (auto simp: castleReady_def rc'_def b_def Let_def)
  have neq: "rc \<noteq> rc'"
  proof
    assume "rc = rc'"
    then have "color rk = color rk'" using rk rk' by simp
    then show False using rkc rkc' kc by (auto simp: opponent_def split: if_splits)
  qed
  have kcell: "boardRead (board gs) (row from) b = Some (Some k)"
    using k samerow by (simp add: b_def)
  have rcell: "boardRead (board gs) (row from) rc = Some (Some rk)"
    using rk by (auto simp: getPieceAt_def split: if_splits)
  have kne: "b \<noteq> rc"
  proof
    assume "b = rc"
    then have "k = rk" using kcell rcell by simp
    then show False using rkc kc by (auto simp: opponent_def split: if_splits)
  qed
  have "b \<in> set [min f rc + 1 .. max f rc - 1]"
    using c farc neq kne b07 by (auto simp: rc_def rc'_def f_def split: if_splits)
  from castlingPathLoop_clear[OF path this] kcell show False by simp
qed

lemma castleReady_pathLevel:
  "castleReady pc from to gs \<Longrightarrow>
   pathLevel (if col from < col to then [col from, col from + 1, col from + 2]
              else [col from, col from - 1, col from - 2])
     (row from) (opponent (color pc)) gs = 0"
  using castleReady_blocks[of pc "from" to gs] by (auto simp: pathLevel_def)

lemma attackLevel_Cons:
  "attackLevel rest p c gs \<le> attackLevel (sq # rest) p c gs"
  by (auto simp: attackLevel_def)

lemma attackLevel_hd:
  "boardRead (board gs) (fst sq) (snd sq) = Some (Some pc) \<Longrightarrow> color pc = c \<Longrightarrow>
   \<not> adjacent \<lparr>row = fst sq, col = snd sq\<rparr> p \<Longrightarrow>
   castleReady pc \<lparr>row = fst sq, col = snd sq\<rparr> p gs \<Longrightarrow>
   attackLevel (sq # rest) p c gs = 1"
  by (auto simp: attackLevel_def)

lemma pathLevel_Cons: "pathLevel cs r c gs \<le> pathLevel (x # cs) r c gs"
  by (auto simp: pathLevel_def)

lemma pathLevel_hd: "attackLevel squares \<lparr>row = r, col = x\<rparr> c gs \<le> pathLevel (x # cs) r c gs"
  by (auto simp: pathLevel_def attackLevel_def)

subsection \<open>Movement rules, castling and attack detection\<close>

text \<open>
  \<open>kingPathLoop\<close> is the loop of \<open>isCastlingValid\<close> over the three squares of the king;
  \<open>attackLoop\<close> is the double loop of \<open>isSquareUnderAttack\<close> over the rest of the grid.
\<close>

function
  isPieceMovementValid :: "ChessPiece \<Rightarrow> Position \<Rightarrow> Position \<Rightarrow> GameState \<Rightarrow> bool option" and
  isCastlingValid :: "ChessPiece \<Rightarrow> Position \<Rightarrow> Position \<Rightarrow> GameState \<Rightarrow> bool option" and
  kingPathLoop :: "int list \<Rightarrow> int \<Rightarrow> PieceColor \<Rightarrow> GameState \<Rightarrow> bool option" and
  isSquareUnderAttack :: "Position \<Rightarrow> PieceColor \<Rightarrow> GameState \<Rightarrow> bool option" and
  attackLoop :: "(int \<times> int) list \<Rightarrow> Position \<Rightarrow> PieceColor \<Rightarrow> GameState \<Rightarrow> bool option"
where
  "isPieceMovementValid pc from to gs =
     (let rowDiff = row to - row from;
          colDiff = col to - col from;
          absRowDiff = \<bar>rowDiff\<bar>;
          absColDiff = \<bar>colDiff\<bar>
      in case ptype pc of
           Pawn \<Rightarrow> isPawnMoveValid pc from to gs
         | Rook \<Rightarrow>
             if rowDiff \<noteq> 0 \<and> colDiff \<noteq> 0 then Some False
             else isPathClear from to (board gs)
         | Bishop \<Rightarrow>
             if absRowDiff \<noteq> absColDiff then Some False
             else isPathClear from to (board gs)
         | Queen \<Rightarrow>
             if rowDiff \<noteq> 0 \<and> colDiff \<noteq> 0 \<and> absRowDiff \<noteq> absColDiff then Some False
             else isPathClear from to (board gs)
         | Knight \<Rightarrow>
             Some ((absRowDiff = 2 \<and> absColDiff = 1) \<or> (absRowDiff = 1 \<and> absColDiff = 2))
         | King \<Rightarrow>
             if absRowDiff \<le> 1 \<and> absColDiff \<le> 1 then Some True
             else isCastlingValid pc from to gs
         | NoType \<Rightarrow> Some False)"
| "isCastlingValid pc from to gs =
     (if hasMoved pc then Some False
      else if row from \<noteq> row to then Some False
      else
        let isKingSide = col to > col from;
            rookCol = (if isKingSide then 7 else 0)
        in case getPieceAt (board gs) \<lparr>row = row from, col = rookCol\<rparr> of
             None \<Rightarrow> None
           | Some rook \<Rightarrow>
               if (case rook of
                     None \<Rightarrow> True
                   | Some rk \<Rightarrow> ptype rk \<noteq> Rook \<or> color rk \<noteq> color pc \<or> hasMoved rk)
               then Some False
               else
                 let rights = castlingRights gs in
                 if (if color pc = White
                     then (isKingSide \<and> \<not> whiteKingSide rights) \<or>
                          (\<not> isKingSide \<and> \<not> whiteQueenSide rights)
                     else (isKingSide \<and> \<not> blackKingSide rights) \<or>
                          (\<not> isKingSide \<and> \<not> blackQueenSide rights))
                 then Some False
                 else
                   let startCol = min (col from) rookCol;
                       endCol = max (col from) rookCol
                   in (case castlingPathLoop (board gs) (row from)
                              [startCol + 1 .. endCol - 1] of
                         None \<Rightarrow> None
                       | Some False \<Rightarrow> Some False
                       | Some True \<Rightarrow>
                           kingPathLoop
                             (if isKingSide then [col from, col from + 1, col from + 2]
                              else [col from, col from - 1, col from - 2])
                             (row from) (opponent (color pc)) gs))"
| "kingPathLoop [] r byColor gs = Some True"
| "kingPathLoop (c # cs) r byColor gs =
     (case isSquareUnderAttack \<lparr>row = r, col = c\<rparr> byColor gs of
        None \<Rightarrow> None
      | Some True \<Rightarrow> Some False
      | Some False \<Rightarrow> kingPathLoop cs r byColor gs)"
| "isSquareUnderAttack position byColor gs = attackLoop squares position byColor gs"
| "attackLoop [] position byColor gs = Some False"
| "attackLoop (sq # rest) position byColor gs =
     (case boardRead (board gs) (fst sq) (snd sq) of
        None \<Rightarrow> None
      | Some None \<Rightarrow> attackLoop rest position byColor gs
      | Some (Some pc) \<Rightarrow>
          if color pc = byColor then
            (if ptype pc = Pawn then
               (let direction = (if color pc = White then -1 else 1 :: int);
                    pawnAttacks = [\<lparr>row = fst sq + direction, col = snd sq - 1\<rparr>,
                                   \<lparr>row = fst sq + direction, col = snd sq + 1\<rparr>]
                in if list_ex (\<lambda>attackPos. isValidPosition attackPos \<and>
                                 positionsEqual attackPos position) pawnAttacks
                   then Some True
                   else attackLoop rest position byColor gs)
             else
               (case isPieceMovementValid pc \<lparr>row = fst sq, col = snd sq\<rparr> position gs of
                  None \<Rightarrow> None
                | Some True \<Rightarrow> Some True
                | Some False \<Rightarrow> attackLoop rest position byColor gs))
          else attackLoop rest position byColor gs)"
  by pat_completeness auto

termination
  apply (relation "inv_image (less_than <*lex*> less_than <*lex*> less_than) engineMeasure")
  subgoal by (intro wf_inv_image wf_lex_prod wf_less_than)
  subgoal by (simp add: engineMeasure_def adjacent_def)
  subgoal premises prems for pc "from" to gs
  proof -
    have "castleReady pc from to gs"
      using prems by (auto simp: castleReady_def split: option.splits)
    from this castleReady_pathLevel[OF this] show ?thesis
      using prems by (auto simp: engineMeasure_def split: if_splits)
  qed
  subgoal for c cs r byColor gs
    using pathLevel_hd[of r c byColor gs cs] by (auto simp: engineMeasure_def)
  subgoal for c cs r byColor gs
    using pathLevel_Cons[of cs r byColor gs c] by (auto simp: engineMeasure_def)
  subgoal by (simp add: engineMeasure_def)
  subgoal for sq rest position byColor gs
    using attackLevel_Cons[of rest position byColor gs sq] by (auto simp: engineMeasure_def)
  subgoal for sq rest position byColor gs
    using attackLevel_Cons[of rest position byColor gs sq] by (auto simp: engineMeasure_def)
  subgoal for sq rest position byColor gs x2 pc
    using attackLevel_hd[of gs sq pc byColor position rest]
    by (auto simp: engineMeasure_def)
  subgoal for sq rest position byColor gs
    using attackLevel_Cons[of rest position byColor gs sq] by (auto simp: engineMeasure_def)
  subgoal for sq rest position byColor gs
    using attackLevel_Cons[of rest position byColor gs sq] by (auto simp: engineMeasure_def)
  done

subsection \<open>Check detection and move legality\<close>

text \<open>The two loops of \<open>isInCheck\<close> that look for the king: the first king in row order.\<close>

fun findKingLoop :: "Board \<Rightarrow> PieceColor \<Rightarrow> (int \<times> int) list \<Rightarrow> Position option option" where
  "findKingLoop b kingColor [] = Some None"
| "findKingLoop b kingColor (sq # rest) =
     (case boardRead b (fst sq) (snd sq) of
        None \<Rightarrow> None
      | Some None \<Rightarrow> findKingLoop b kingColor rest
      | Some (Some pc) \<Rightarrow>
          if ptype pc = King \<and> color pc = kingColor
          then Some (Some \<lparr>row = fst sq, col = snd sq\<rparr>)
          else findKingLoop b kingColor rest)"

definition isInCheck :: "GameState \<Rightarrow> bool option" where
  "isInCheck gs =
     (let kingColor = currentPlayer gs;
          opponentColor = (if kingColor = White then Black else White)
      in case findKingLoop (board gs) kingColor squares of
           None \<Rightarrow> None
         | Some None \<Rightarrow> Some False
         | Some (Some kingPosition) \<Rightarrow> isSquareUnderAttack kingPosition opponentColor gs)"

definition makeTemporaryMove :: "Position \<Rightarrow> Position \<Rightarrow> GameState \<Rightarrow> GameState option" where
  "makeTemporaryMove from to gs =
     (case boardRead (board gs) (row from) (col from) of
        None \<Rightarrow> None
      | Some pc \<Rightarrow>
          (case boardWrite (board gs) (row to) (col to) pc of
             None \<Rightarrow> None
           | Some b1 \<Rightarrow>
               (case boardWrite b1 (row from) (col from) None of
                  None \<Rightarrow> None
                | Some newBoard \<Rightarrow> Some (gs\<lparr>board := newBoard\<rparr>))))"

definition wouldLeaveKingInCheck :: "Position \<Rightarrow> Position \<Rightarrow> GameState \<Rightarrow> bool option" where
  "wouldLeaveKingInCheck from to gs =
     (case makeTemporaryMove from to gs of
        None \<Rightarrow> None
      | Some tempGameState \<Rightarrow> isInCheck tempGameState)"

definition isValidMove :: "Position \<Rightarrow> Position \<Rightarrow> GameState \<Rightarrow> bool option" where
  "isValidMove from to gs =
     (case getPieceAt (board gs) from of
        None \<Rightarrow> None
      | Some None \<Rightarrow> Some False
      | Some (Some pc) \<Rightarrow>
          if color pc \<noteq> currentPlayer gs then Some False
          else if \<not> isValidPosition to then Some False
          else
            (case getPieceAt (board gs) to of
               None \<Rightarrow> None
             | Some targetPiece \<Rightarrow>
                 if (case targetPiece of None \<Rightarrow> False | Some t \<Rightarrow> color t = color pc)
                 then Some False
                 else
                   (case isPieceMovementValid pc from to gs of
                      None \<Rightarrow> None
                    | Some False \<Rightarrow> Some False
                    | Some True \<Rightarrow>
                        (case wouldLeaveKingInCheck from to gs of
                           None \<Rightarrow> None
                         | Some True \<Rightarrow> Some False
                         | Some False \<Rightarrow> Some True))))"

text \<open>The double loop of \<open>getValidMoves\<close> over all destinations.\<close>

fun validMovesLoop :: "Position \<Rightarrow> GameState \<Rightarrow> (int \<times> int) list \<Rightarrow> Position list option" where
  "validMovesLoop from gs [] = Some []"
| "validMovesLoop from gs (sq # rest) =
     (let to = \<lparr>row = fst sq, col = snd sq\<rparr>
      in case isValidMove from to gs of
           None \<Rightarrow> None
         | Some ok \<Rightarrow>
             (case validMovesLoop from gs rest of
                None \<Rightarrow> None
              | Some validMoves \<Rightarrow> Some (if ok then to # validMoves else validMoves)))"

definition getValidMoves :: "Position \<Rightarrow> GameState \<Rightarrow> Position list option" where
  "getValidMoves from gs =
     (case getPieceAt (board gs) from of
        None \<Rightarrow> None
      | Some None \<Rightarrow> Some []
      | Some (Some pc) \<Rightarrow>
          if color pc \<noteq> currentPlayer gs then Some []
          else validMovesLoop from gs squares)"

text \<open>The double loop of \<open>hasValidMoves\<close> over all origins.\<close>

fun hasValidMovesLoop :: "GameState \<Rightarrow> (int \<times> int) list \<Rightarrow> bool option" where
  "hasValidMovesLoop gs [] = Some False"
| "hasValidMovesLoop gs (sq # rest) =
     (case boardRead (board gs) (fst sq) (snd sq) of
        None \<Rightarrow> None
      | Some None \<Rightarrow> hasValidMovesLoop gs rest
      | Some (Some pc) \<Rightarrow>
          if color pc = currentPlayer gs then
            (case getValidMoves \<lparr>row = fst sq, col = snd sq\<rparr> gs of
               None \<Rightarrow> None
             | Some validMoves \<Rightarrow>
                 if length validMoves > 0 then Some True else hasValidMovesLoop gs rest)
          else hasValidMovesLoop gs rest)"

definition hasValidMoves :: "GameState \<Rightarrow> bool option" where
  "hasValidMoves gs = hasValidMovesLoop gs squares"

definition getGameStatus :: "GameState \<Rightarrow> GameStatus option" where
  "getGameStatus gs =
     (case hasValidMoves gs of
        None \<Rightarrow> None
      | Some hasMoves \<Rightarrow>
          (case isInCheck gs of
             None \<Rightarrow> None
           | Some inCheck \<Rightarrow>
               if \<not> hasMoves then Some (if inCheck then Checkmate else Stalemate)
               else Some (if inCheck then Check else Playing)))"

subsection \<open>Square labels and move notation (lib/chess-utils.ts)\<close>

text \<open>\<open>Number.prototype.toString\<close> on an integer: decimal digits, a minus sign first.\<close>

fun natToString :: "nat \<Rightarrow> string" where
  "natToString n =
     (if n < 10 then [''0123456789'' ! n]
      else natToString (n div 10) @ [''0123456789'' ! (n mod 10)])"

declare natToString.simps [simp del]

definition intToString :: "int \<Rightarrow> string" where
  "intToString i = (if i < 0 then CHR ''-'' # natToString (nat (- i)) else natToString (nat i))"

text \<open>
  \<open>files[pos.col] + (8 - pos.row).toString()\<close>: outside the eight files the lookup is
  \<open>undefined\<close>, and the concatenation writes it as the text \<open>undefined\<close>.
\<close>

definition positionToChessNotation :: "Position \<Rightarrow> string" where
  "positionToChessNotation pos =
     (if 0 \<le> col pos \<and> col pos < 8 then [''abcdefgh'' ! nat (col pos)] else ''undefined'')
     @ intToString (8 - row pos)"

text \<open>
  \<open>type.charAt(0).toUpperCase()\<close> of the six kinds (king and knight share \<open>K\<close>); on
  \<open>undefined\<close> the call throws.
\<close>

fun typeLetter :: "PieceType \<Rightarrow> char option" where
  "typeLetter King = Some CHR ''K''"
| "typeLetter Queen = Some CHR ''Q''"
| "typeLetter Rook = Some CHR ''R''"
| "typeLetter Bishop = Some CHR ''B''"
| "typeLetter Knight = Some CHR ''K''"
| "typeLetter Pawn = Some CHR ''P''"
| "typeLetter NoType = None"

definition generateMoveNotation :: "ChessMove \<Rightarrow> GameState \<Rightarrow> string option" where
  "generateMoveNotation move gs =
     (if isCastling move then Some (if col (mto move) > col (mfrom move) then ''O-O'' else ''O-O-O'')
      else
        (case (if ptype (piece move) \<noteq> Pawn
               then map_option (\<lambda>ch. [ch]) (typeLetter (ptype (piece move)))
               else Some []) of
           None \<Rightarrow> None
         | Some letter \<Rightarrow>
             Some (letter
               @ positionToChessNotation (mfrom move)
               @ (if capturedPiece move \<noteq> None then ''x'' else [])
               @ positionToChessNotation (mto move)
               @ (case promotion move of
                    None \<Rightarrow> []
                  | Some t \<Rightarrow> (case typeLetter t of None \<Rightarrow> [] | Some ch \<Rightarrow> [CHR ''='', ch]))
               @ (if isCheckmate move = Some True then ''#''
                  else if isCheck move = Some True then ''+'' else []))))"

subsection \<open>Executing a move\<close>

definition isCastlingMove :: "ChessPiece \<Rightarrow> Position \<Rightarrow> Position \<Rightarrow> bool" where
  "isCastlingMove pc from to = (ptype pc = King \<and> \<bar>col to - col from\<bar> = 2)"

definition isEnPassantMove ::
  "ChessPiece \<Rightarrow> Position \<Rightarrow> Position \<Rightarrow> GameState \<Rightarrow> bool option" where
  "isEnPassantMove pc from to gs =
     (if ptype pc \<noteq> Pawn then Some False
      else if \<bar>col to - col from\<bar> \<noteq> 1 then Some False
      else
        (case getPieceAt (board gs) to of
           None \<Rightarrow> None
         | Some targetPiece \<Rightarrow>
             Some (targetPiece = None \<and>
                   (case enPassantTarget gs of
                      None \<Rightarrow> False
                    | Some ep \<Rightarrow> positionsEqual to ep))))"

definition handleCastling :: "Position \<Rightarrow> Position \<Rightarrow> Board \<Rightarrow> Board option" where
  "handleCastling from to b =
     (let isKingSide = col to > col from;
          rookFromCol = (if isKingSide then 7 else 0);
          rookToCol = (if isKingSide then 5 else 3)
      in case boardRead b (row from) rookFromCol of
           None \<Rightarrow> None
         | Some rook \<Rightarrow>
             (case boardWrite b (row from) rookToCol
                     (case rook of None \<Rightarrow> None | Some rk \<Rightarrow> Some (rk\<lparr>hasMoved := True\<rparr>)) of
                None \<Rightarrow> None
              | Some b1 \<Rightarrow> boardWrite b1 (row from) rookFromCol None))"

definition updateCastlingRights :: "CastlingRights \<Rightarrow> ChessMove \<Rightarrow> CastlingRights" where
  "updateCastlingRights currentRights move =
     (let r1 = (if ptype (piece move) = King then
                  (if color (piece move) = White
                   then currentRights\<lparr>whiteKingSide := False, whiteQueenSide := False\<rparr>
                   else currentRights\<lparr>blackKingSide := False, blackQueenSide := False\<rparr>)
                else currentRights);
          fr = mfrom move
      in if ptype (piece move) = Rook then
           (let r2 = (if row fr = 7 \<and> col fr = 7 then r1\<lparr>whiteKingSide := False\<rparr> else r1);
                r3 = (if row fr = 7 \<and> col fr = 0 then r2\<lparr>whiteQueenSide := False\<rparr> else r2);
                r4 = (if row fr = 0 \<and> col fr = 7 then r3\<lparr>blackKingSide := False\<rparr> else r3)
            in if row fr = 0 \<and> col fr = 0 then r4\<lparr>blackQueenSide := False\<rparr> else r4)
         else r1)"

text \<open>
  \<open>(from.row + to.row) / 2\<close> is only computed when the rows differ by two, where the
  sum is even and the quotient the integer \<open>div\<close> gives.
\<close>

definition getEnPassantTarget :: "ChessMove \<Rightarrow> Position option" where
  "getEnPassantTarget move =
     (if ptype (piece move) = Pawn \<and> \<bar>row (mto move) - row (mfrom move)\<bar> = 2
      then Some \<lparr>row = (row (mfrom move) + row (mto move)) div 2, col = col (mto move)\<rparr>
      else None)"

text \<open>
  \<open>makeMove\<close> returns \<open>null\<close> for a move \<open>isValidMove\<close> rejects: \<open>Some None\<close>; an
  accepted move gives \<open>Some (Some newGameState)\<close>. The object literal of the new state
  has no \<open>winner\<close>. The move record is one object: the notation assigned to it
  afterwards is seen through \<open>lastMove\<close> and through the history it is pushed to.
\<close>

definition makeMove :: "Position \<Rightarrow> Position \<Rightarrow> GameState \<Rightarrow> GameState option option" where
  "makeMove from to gs =
     (case isValidMove from to gs of
        None \<Rightarrow> None
      | Some False \<Rightarrow> Some None
      | Some True \<Rightarrow>
     (case boardRead (board gs) (row from) (col from) of
        None \<Rightarrow> None
      | Some None \<Rightarrow> None
      | Some (Some pc) \<Rightarrow>
     (case boardRead (board gs) (row to) (col to) of
        None \<Rightarrow> None
      | Some captured \<Rightarrow>
     (case isEnPassantMove pc from to gs of
        None \<Rightarrow> None
      | Some enPassant \<Rightarrow>
     (let move = \<lparr>mfrom = from, mto = to, piece = pc, capturedPiece = captured,
                  isCheck = None, isCheckmate = None, isStalemate = None,
                  isCastling = isCastlingMove pc from to, isEnPassant = enPassant,
                  promotion = None, notationText = []\<rparr>
      in
     (case boardWrite (board gs) (row to) (col to) (Some (pc\<lparr>hasMoved := True\<rparr>)) of
        None \<Rightarrow> None
      | Some b1 \<Rightarrow>
     (case boardWrite b1 (row from) (col from) None of
        None \<Rightarrow> None
      | Some b2 \<Rightarrow>
     (case (if isCastling move then handleCastling from to b2 else Some b2) of
        None \<Rightarrow> None
      | Some b3 \<Rightarrow>
     (case (if isEnPassant move
            then boardWrite b3 (if color pc = White then row to + 1 else row to - 1) (col to) None
            else Some b3) of
        None \<Rightarrow> None
      | Some newBoard \<Rightarrow>
     (let newCastlingRights = updateCastlingRights (castlingRights gs) move;
          newEnPassantTarget = getEnPassantTarget move;
          newCurrentPlayer = (if currentPlayer gs = White then Black else White);
          newGameState =
            \<lparr>board = newBoard, currentPlayer = newCurrentPlayer,
             moveHistory = moveHistory gs,
             capturedPieces =
               (case captured of
                  None \<Rightarrow> capturedPieces gs
                | Some cp \<Rightarrow> capturedPieces gs @ [cp]),
             gameStatus = Playing, winner = None, lastMove = Some move,
             enPassantTarget = newEnPassantTarget, castlingRights = newCastlingRights\<rparr>
      in
     (case generateMoveNotation move newGameState of
        None \<Rightarrow> None
      | Some text \<Rightarrow>
     (let noted = move\<lparr>notationText := text\<rparr>;
          pushed = newGameState\<lparr>lastMove := Some noted,
                                 moveHistory := moveHistory gs @ [noted]\<rparr>
      in
     (case getGameStatus pushed of
        None \<Rightarrow> None
      | Some status \<Rightarrow> Some (Some (pushed\<lparr>gameStatus := status\<rparr>)))))))))))))))"

section \<open>Position codec (lib/chess-utils.ts)\<close>

text \<open>
  Strings are lists of characters, the code units below 256. \<open>toUpperCase\<close> and
  \<open>toLowerCase\<close> are those of JavaScript on ASCII text, where they change the letters
  a to z and nothing else. Of the other characters of the model JavaScript changes
  accented letters only, which the two functions here leave as they are; no such letter
  is mapped to an ASCII letter, so whether \<open>toLowerCase\<close> gives one of \<open>kqrbnp\<close> is the
  same here and in the code for every character of the model. Characters from 256 on
  (the Kelvin sign, which JavaScript lower-cases to \<open>k\<close>, is one) are not in the model.
  The colour \<open>FENCharToPiece\<close> gives, which compares with \<open>toUpperCase\<close>, is the code's
  on ASCII text.
\<close>

definition toUpperCase :: "char \<Rightarrow> char" where
  "toUpperCase ch =
     (case map_of (zip ''abcdefghijklmnopqrstuvwxyz'' ''ABCDEFGHIJKLMNOPQRSTUVWXYZ'') ch of
        None \<Rightarrow> ch
      | Some upper \<Rightarrow> upper)"

definition toLowerCase :: "char \<Rightarrow> char" where
  "toLowerCase ch =
     (case map_of (zip ''ABCDEFGHIJKLMNOPQRSTUVWXYZ'' ''abcdefghijklmnopqrstuvwxyz'') ch of
        None \<Rightarrow> ch
      | Some lower \<Rightarrow> lower)"

text \<open>
  \<open>String.prototype.split\<close> with a separator of one character: the pieces between
  the separators, empty ones included; never an empty array.
\<close>

fun splitOn :: "char \<Rightarrow> string \<Rightarrow> string list" where
  "splitOn sep [] = [[]]"
| "splitOn sep (ch # rest) =
     (if ch = sep then [] # splitOn sep rest
      else (case splitOn sep rest of
              [] \<Rightarrow> [[ch]]
            | w # ws \<Rightarrow> (ch # w) # ws))"

text \<open>\<open>charMap[piece.type]\<close>; \<open>undefined\<close> for a kind that is none of the six.\<close>

fun charMap :: "PieceType \<Rightarrow> char option" where
  "charMap King = Some CHR ''k''"
| "charMap Queen = Some CHR ''q''"
| "charMap Rook = Some CHR ''r''"
| "charMap Bishop = Some CHR ''b''"
| "charMap Knight = Some CHR ''n''"
| "charMap Pawn = Some CHR ''p''"
| "charMap NoType = None"

text \<open>
  \<open>pieceToFENChar\<close>: for a white piece \<open>char.toUpperCase()\<close> throws when \<open>char\<close> is
  \<open>undefined\<close>; for a black piece \<open>undefined\<close> is returned and \<open>fen +=\<close> appends it as
  the text \<open>undefined\<close>.
\<close>

definition pieceToFENChar :: "ChessPiece \<Rightarrow> string option" where
  "pieceToFENChar pc =
     (case charMap (ptype pc) of
        None \<Rightarrow> (if color pc = White then None else Some ''undefined'')
      | Some ch \<Rightarrow> Some [if color pc = White then toUpperCase ch else ch])"

text \<open>
  The inner loop of \<open>gameStateToFEN\<close> over the columns of one row, with the count of
  empty squares not yet written; its value is the text of the row from that column on.
\<close>

fun fenColLoop :: "Board \<Rightarrow> int \<Rightarrow> int list \<Rightarrow> nat \<Rightarrow> string option" where
  "fenColLoop b r [] emptyCount = Some (if emptyCount > 0 then natToString emptyCount else [])"
| "fenColLoop b r (c # cs) emptyCount =
     (case boardRead b r c of
        None \<Rightarrow> None
      | Some None \<Rightarrow> fenColLoop b r cs (emptyCount + 1)
      | Some (Some pc) \<Rightarrow>
          (case pieceToFENChar pc of
             None \<Rightarrow> None
           | Some letter \<Rightarrow>
               (case fenColLoop b r cs 0 of
                  None \<Rightarrow> None
                | Some rest \<Rightarrow>
                    Some ((if emptyCount > 0 then natToString emptyCount else [])
                          @ letter @ rest))))"

text \<open>The outer loop over the rows, a \<open>/\<close> after every row but the last.\<close>

fun fenRowLoop :: "Board \<Rightarrow> int list \<Rightarrow> string option" where
  "fenRowLoop b [] = Some []"
| "fenRowLoop b (r # rs) =
     (case fenColLoop b r [0..7] 0 of
        None \<Rightarrow> None
      | Some rowText \<Rightarrow>
          (case fenRowLoop b rs of
             None \<Rightarrow> None
           | Some rest \<Rightarrow> Some (rowText @ (if r < 7 then ''/'' else []) @ rest)))"

definition gameStateToFEN :: "GameState \<Rightarrow> string option" where
  "gameStateToFEN gs =
     (case fenRowLoop (board gs) [0..7] of
        None \<Rightarrow> None
      | Some placement \<Rightarrow>
          (let rights = castlingRights gs;
               castling = (if whiteKingSide rights then ''K'' else [])
                        @ (if whiteQueenSide rights then ''Q'' else [])
                        @ (if blackKingSide rights then ''k'' else [])
                        @ (if blackQueenSide rights then ''q'' else []);
               fullmoveNumber = length (moveHistory gs) div 2 + 1
           in Some (placement
                @ '' '' @ (if currentPlayer gs = White then ''w'' else ''b'')
                @ '' '' @ (if castling = [] then ''-'' else castling)
                @ '' '' @ (case enPassantTarget gs of
                             None \<Rightarrow> ''-''
                           | Some ep \<Rightarrow> positionToChessNotation ep)
                @ '' 0''
                @ '' '' @ natToString fullmoveNumber)))"

text \<open>
  \<open>parseInt\<close> of one character: its value for a decimal digit, \<open>NaN\<close> (\<open>None\<close>) for
  anything else and for \<open>undefined\<close>.
\<close>

definition parseInt :: "char option \<Rightarrow> int option" where
  "parseInt x =
     (case x of
        None \<Rightarrow> None
      | Some ch \<Rightarrow>
          (let n = (of_char ch :: nat)
           in if 48 \<le> n \<and> n \<le> 57 then Some (int n - 48) else None))"

text \<open>\<open>notation[i]\<close>: the character, or \<open>undefined\<close> past the end.\<close>

definition charAt :: "string \<Rightarrow> nat \<Rightarrow> char option" where
  "charAt s i = (if i < length s then Some (s ! i) else None)"

text \<open>\<open>Array.prototype.indexOf\<close>: the first index of the element, or \<open>-1\<close>.\<close>

fun indexOf :: "'a list \<Rightarrow> 'a \<Rightarrow> int" where
  "indexOf [] x = -1"
| "indexOf (y # ys) x =
     (if x = y then 0 else (let i = indexOf ys x in if i < 0 then -1 else i + 1))"

text \<open>
  \<open>chessNotationToPosition\<close> of a string. When the second character is not a digit the
  row is \<open>8 - NaN\<close>, a value no integer stands for: \<open>None\<close> here is that position, not a
  throw.
\<close>

definition chessNotationToPosition :: "string \<Rightarrow> Position option" where
  "chessNotationToPosition text =
     (let file = charAt text 0;
          rank = parseInt (charAt text 1);
          column = (case file of None \<Rightarrow> -1 | Some f \<Rightarrow> indexOf ''abcdefgh'' f)
      in case rank of
           None \<Rightarrow> None
         | Some k \<Rightarrow> Some \<lparr>row = 8 - k, col = column\<rparr>)"

text \<open>\<open>typeMap[char.toLowerCase()]\<close>; \<open>undefined\<close> for a letter outside \<open>kqrbnp\<close>.\<close>

definition typeMap :: "char \<Rightarrow> PieceType" where
  "typeMap ch =
     (if ch = CHR ''k'' then King else if ch = CHR ''q'' then Queen
      else if ch = CHR ''r'' then Rook else if ch = CHR ''b'' then Bishop
      else if ch = CHR ''n'' then Knight else if ch = CHR ''p'' then Pawn
      else NoType)"

definition FENCharToPiece :: "char \<Rightarrow> string \<Rightarrow> ChessPiece" where
  "FENCharToPiece ch ident =
     \<lparr>ptype = typeMap (toLowerCase ch),
      color = (if ch = toUpperCase ch then White else Black),
      pid = ident, hasMoved = False\<rparr>"

text \<open>
  The loop of \<open>FENToGameState\<close> over the characters of one rank: a digit from 1 to 8
  moves the column on, any other character is stored as a piece. \<open>parseInt\<close> of such
  a digit is a number (\<open>parseInt_digit\<close> below), so the branch for \<open>NaN\<close> is never
  taken.
\<close>

fun fenCharLoop :: "Board \<Rightarrow> int \<Rightarrow> int \<Rightarrow> string \<Rightarrow> Board option" where
  "fenCharLoop b r c [] = Some b"
| "fenCharLoop b r c (ch # rest) =
     (if CHR ''1'' = ch \<or> CHR ''2'' = ch \<or> CHR ''3'' = ch \<or> CHR ''4'' = ch \<or>
         CHR ''5'' = ch \<or> CHR ''6'' = ch \<or> CHR ''7'' = ch \<or> CHR ''8'' = ch
      then (case parseInt (Some ch) of
              None \<Rightarrow> None
            | Some n \<Rightarrow> fenCharLoop b r (c + n) rest)
      else
        (case boardWrite b r c
                (Some (FENCharToPiece ch
                   ([ch] @ ''-'' @ intToString r @ ''-'' @ intToString c))) of
           None \<Rightarrow> None
         | Some b1 \<Rightarrow> fenCharLoop b1 r (c + 1) rest))"

text \<open>
  The loop over the eight ranks; \<open>rows[row]\<close> is \<open>undefined\<close> when the placement has
  fewer ranks, and iterating it throws.
\<close>

fun fenRankLoop :: "Board \<Rightarrow> string list \<Rightarrow> int list \<Rightarrow> Board option" where
  "fenRankLoop b ranks [] = Some b"
| "fenRankLoop b ranks (r # rs) =
     (if 0 \<le> r \<and> r < int (length ranks) then
        (case fenCharLoop b r 0 (ranks ! nat r) of
           None \<Rightarrow> None
         | Some b1 \<Rightarrow> fenRankLoop b1 ranks rs)
      else None)"

text \<open>
  What a call of \<open>FENToGameState\<close> does: it returns a game state, it throws a
  \<open>TypeError\<close>, or it returns a game state whose en-passant row is \<open>NaN\<close>, which the
  integer coordinates of the model cannot hold: \<open>DecodedNaN\<close> carries that state with
  the target left unset.
\<close>

datatype decoded = Decoded GameState | TypeError | DecodedNaN GameState

definition FENToGameState :: "string \<Rightarrow> decoded" where
  "FENToGameState fen =
     (let parts = splitOn CHR '' '' fen;
          boardPart = parts ! 0;
          activeColor = (if 1 < length parts \<and> parts ! 1 = ''w'' then White else Black)
      in if length parts < 4 then TypeError
         else
           (let castling = parts ! 2;
                enPassant = (if parts ! 3 \<noteq> ''-''
                             then Some (chessNotationToPosition (parts ! 3)) else None)
            in case fenRankLoop (replicate 8 (replicate 8 None))
                      (splitOn CHR ''/'' boardPart) [0..7] of
                 None \<Rightarrow> TypeError
               | Some b \<Rightarrow>
                   (let decodedState =
                          \<lparr>board = b, currentPlayer = activeColor, moveHistory = [],
                           capturedPieces = [], gameStatus = Playing, winner = None,
                           lastMove = None,
                           enPassantTarget = (case enPassant of None \<Rightarrow> None | Some p \<Rightarrow> p),
                           castlingRights =
                             \<lparr>whiteKingSide = CHR ''K'' \<in> set castling,
                              whiteQueenSide = CHR ''Q'' \<in> set castling,
                              blackKingSide = CHR ''k'' \<in> set castling,
                              blackQueenSide = CHR ''q'' \<in> set castling\<rparr>\<rparr>
                    in case enPassant of
                         Some None \<Rightarrow> DecodedNaN decodedState
                       | _ \<Rightarrow> Decoded decodedState)))"

text \<open>\<open>INITIAL_BOARD_FEN\<close> and \<open>createInitialGameState\<close>.\<close>

definition INITIAL_BOARD_FEN :: string where
  "INITIAL_BOARD_FEN = ''rnbqkbnr/pppppppp/8/8/8/8/PPPPPPPP/RNBQKBNR w KQkq - 0 1''"

definition createInitialGameState :: decoded where
  "createInitialGameState = FENToGameState INITIAL_BOARD_FEN"

section \<open>Positions used as concrete inputs\<close>

definition pieceOf :: "PieceType \<Rightarrow> PieceColor \<Rightarrow> string \<Rightarrow> bool \<Rightarrow> Cell" where
  "pieceOf t c i m = Some \<lparr>ptype = t, color = c, pid = i, hasMoved = m\<rparr>"

definition emptyRow :: "Cell list" where
  "emptyRow = [None, None, None, None, None, None, None, None]"

definition noCastling :: CastlingRights where
  "noCastling = \<lparr>whiteKingSide = False, whiteQueenSide = False,
                  blackKingSide = False, blackQueenSide = False\<rparr>"

definition allCastling :: CastlingRights where
  "allCastling = \<lparr>whiteKingSide = True, whiteQueenSide = True,
                  blackKingSide = True, blackQueenSide = True\<rparr>"

definition gameAt :: "Board \<Rightarrow> PieceColor \<Rightarrow> Position option \<Rightarrow> CastlingRights \<Rightarrow> GameState" where
  "gameAt b c ep rights =
     \<lparr>board = b, currentPlayer = c, moveHistory = [], capturedPieces = [],
      gameStatus = Playing, winner = None, lastMove = None,
      enPassantTarget = ep, castlingRights = rights\<rparr>"

definition blockedPawn :: GameState where
  "blockedPawn = gameAt
     [[None, None, None, None, pieceOf King Black ''k-0-4'' True, None, None, None],
      emptyRow, emptyRow, emptyRow, emptyRow,
      [None, None, None, None, pieceOf Knight Black ''n-5-4'' True, None, None, None],
      [None, None, None, None, pieceOf Pawn White ''P-6-4'' False, None, None, None],
      [None, None, None, None, pieceOf King White ''K-7-4'' True, None, None, None]]
     White None noCastling"

definition castlePosition :: GameState where
  "castlePosition = gameAt
     [[None, None, None, None, pieceOf King Black ''k-0-4'' False, None, None, None],
      emptyRow, emptyRow, emptyRow, emptyRow, emptyRow, emptyRow,
      [pieceOf Rook White ''R-7-0'' False, None, None, None,
       pieceOf King White ''K-7-4'' False, None, None, pieceOf Rook White ''R-7-7'' False]]
     White None allCastling"

definition pinnedPawn :: GameState where
  "pinnedPawn = gameAt
     [[None, None, None, None, pieceOf King Black ''k-0-4'' True, None, None, None],
      [None, None, pieceOf Pawn Black ''p-1-2'' False, None, None, None, None, None],
      emptyRow,
      [pieceOf King White ''K-7-4'' True, pieceOf Pawn White ''P-6-1'' True, None, None,
       None, None, None, pieceOf Rook Black ''r-0-7'' True],
      emptyRow, emptyRow, emptyRow, emptyRow]
     Black None noCastling"

definition passingPawns :: GameState where
  "passingPawns = gameAt
     [[None, None, None, None, pieceOf King Black ''k-0-4'' True, None, None, None],
      [None, None, None, pieceOf Pawn Black ''p-1-3'' False, None, None, None, None],
      emptyRow,
      [None, None, None, None, pieceOf Pawn White ''P-6-4'' True, None, None, None],
      emptyRow, emptyRow, emptyRow,
      [None, None, None, None, pieceOf King White ''K-7-4'' True, None, None, None]]
     Black None noCastling"

definition queenMate :: GameState where
  "queenMate = gameAt
     [[pieceOf King Black ''k-0-4'' True, None, None, None, None, None, None, None],
      [None, None, None, None, None, None, None, pieceOf Queen White ''Q-7-3'' True],
      [None, pieceOf King White ''K-7-4'' True, None, None, None, None, None, None],
      emptyRow, emptyRow, emptyRow, emptyRow, emptyRow]
     White None noCastling"

definition queenStale :: GameState where
  "queenStale = gameAt
     [[pieceOf King Black ''k-0-4'' True, None, None, None, None, None, None, None],
      emptyRow,
      [None, pieceOf King White ''K-7-4'' True, None, None, None, None, None, None],
      emptyRow, emptyRow, emptyRow, emptyRow,
      [None, None, pieceOf Queen White ''Q-7-3'' True, None, None, None, None, None]]
     White None noCastling"

definition lastRankPawn :: GameState where
  "lastRankPawn = gameAt
     [[None, None, None, None, pieceOf King Black ''k-0-4'' True, None, None, None],
      [pieceOf Pawn White ''P-6-0'' True, None, None, None, None, None, None, None],
      emptyRow, emptyRow, emptyRow, emptyRow, emptyRow,
      [None, None, None, None, pieceOf King White ''K-7-4'' True, None, None, None]]
     White None noCastling"

definition offBoardTarget :: GameState where
  "offBoardTarget = gameAt (board castlePosition) White (Some \<lparr>row = - 2, col = 0\<rparr>) allCastling"

definition afterE4 :: GameState where
  "afterE4 = gameAt
     [[pieceOf Rook Black ''r-0-0'' False, pieceOf Knight Black ''n-0-1'' False,
       pieceOf Bishop Black ''b-0-2'' False, pieceOf Queen Black ''q-0-3'' False,
       pieceOf King Black ''k-0-4'' False, pieceOf Bishop Black ''b-0-5'' False,
       pieceOf Knight Black ''n-0-6'' False, pieceOf Rook Black ''r-0-7'' False],
      [pieceOf Pawn Black ''p-1-0'' False, pieceOf Pawn Black ''p-1-1'' False,
       pieceOf Pawn Black ''p-1-2'' False, pieceOf Pawn Black ''p-1-3'' False,
       pieceOf Pawn Black ''p-1-4'' False, pieceOf Pawn Black ''p-1-5'' False,
       pieceOf Pawn Black ''p-1-6'' False, pieceOf Pawn Black ''p-1-7'' False],
      emptyRow, emptyRow,
      [None, None, None, None, pieceOf Pawn White ''P-6-4'' True, None, None, None],
      emptyRow,
      [pieceOf Pawn White ''P-6-0'' False, pieceOf Pawn White ''P-6-1'' False,
       pieceOf Pawn White ''P-6-2'' False, pieceOf Pawn White ''P-6-3'' False,
       None, pieceOf Pawn White ''P-6-5'' False,
       pieceOf Pawn White ''P-6-6'' False, pieceOf Pawn White ''P-6-7'' False],
      [pieceOf Rook White ''R-7-0'' False, pieceOf Knight White ''N-7-1'' False,
       pieceOf Bishop White ''B-7-2'' False, pieceOf Queen White ''Q-7-3'' False,
       pieceOf King White ''K-7-4'' False, pieceOf Bishop White ''B-7-5'' False,
       pieceOf Knight White ''N-7-6'' False, pieceOf Rook White ''R-7-7'' False]]
     Black (Some \<lparr>row = 5, col = 4\<rparr>) allCastling"

section \<open>Relations used to state and prove the properties\<close>

text \<open>
  Two game states with the same board, castling rights and en-passant target: the
  movement rules and the attack scan read nothing else of a state.
\<close>

definition sameRules :: "GameState \<Rightarrow> GameState \<Rightarrow> bool" where
  "sameRules gs2 gs = (board gs2 = board gs \<and> castlingRights gs2 = castlingRights gs \<and>
     enPassantTarget gs2 = enPassantTarget gs)"

text \<open>
  A piece that differs from another at most in its moved-flag, and a board all of whose
  pieces are such copies of pieces of an older board.
\<close>

definition keepsKind :: "ChessPiece \<Rightarrow> ChessPiece \<Rightarrow> bool" where
  "keepsKind p p' = (ptype p' = ptype p \<and> color p' = color p \<and> pid p' = pid p)"

definition piecesFrom :: "Board \<Rightarrow> Board \<Rightarrow> bool" where
  "piecesFrom old new =
     (\<forall>r c p'. boardRead new r c = Some (Some p') \<longrightarrow>
        (\<exists>r0 c0 p. boardRead old r0 c0 = Some (Some p) \<and> keepsKind p p'))"

text \<open>The kind and colour of the piece in a cell, if any.\<close>

definition cellKind :: "Cell \<Rightarrow> (PieceType \<times> PieceColor) option" where
  "cellKind x = map_option (\<lambda>pc. (ptype pc, color pc)) x"

text \<open>
  A well-formed board: eight rows of eight cells, every piece of one of the six kinds of
  \<open>PieceType\<close>.
\<close>

definition wellFormedBoard :: "Board \<Rightarrow> bool" where
  "wellFormedBoard b =
     (length b = 8 \<and> list_all (\<lambda>r. length r = 8 \<and> list_all (\<lambda>x. map_option ptype x \<noteq> Some NoType) r) b)"

text \<open>
  The two loops of the codec on one row, as functions on the list of its cells:
  \<open>rowText\<close> is what \<open>fenColLoop\<close> writes for the cells from a column on, and
  \<open>rowParse\<close> is the row that \<open>fenCharLoop\<close> leaves.
\<close>

fun rowText :: "Cell list \<Rightarrow> nat \<Rightarrow> string option" where
  "rowText [] k = Some (if k > 0 then natToString k else [])"
| "rowText (None # xs) k = rowText xs (k + 1)"
| "rowText (Some pc # xs) k =
     (case pieceToFENChar pc of
        None \<Rightarrow> None
      | Some letter \<Rightarrow>
          (case rowText xs 0 of
             None \<Rightarrow> None
           | Some rest \<Rightarrow> Some ((if k > 0 then natToString k else []) @ letter @ rest)))"

fun rowParse :: "Cell list \<Rightarrow> int \<Rightarrow> int \<Rightarrow> string \<Rightarrow> Cell list" where
  "rowParse cells r c [] = cells"
| "rowParse cells r c (ch # rest) =
     (if CHR ''1'' = ch \<or> CHR ''2'' = ch \<or> CHR ''3'' = ch \<or> CHR ''4'' = ch \<or>
         CHR ''5'' = ch \<or> CHR ''6'' = ch \<or> CHR ''7'' = ch \<or> CHR ''8'' = ch
      then (case parseInt (Some ch) of
              None \<Rightarrow> cells
            | Some n \<Rightarrow> rowParse cells r (c + n) rest)
      else rowParse
             (rowWrite cells c
                (Some (FENCharToPiece ch ([ch] @ ''-'' @ intToString r @ ''-'' @ intToString c))))
             r (c + 1) rest)"

text \<open>
  The column counter of the loop of \<open>FENToGameState\<close> after the characters of a text,
  and the grid of the state a call returns.
\<close>

fun columnAfter :: "int \<Rightarrow> string \<Rightarrow> int" where
  "columnAfter c [] = c"
| "columnAfter c (ch # rest) =
     (if CHR ''1'' = ch \<or> CHR ''2'' = ch \<or> CHR ''3'' = ch \<or> CHR ''4'' = ch \<or>
         CHR ''5'' = ch \<or> CHR ''6'' = ch \<or> CHR ''7'' = ch \<or> CHR ''8'' = ch
      then (case parseInt (Some ch) of
              None \<Rightarrow> c
            | Some n \<Rightarrow> columnAfter (c + n) rest)
      else columnAfter (c + 1) rest)"

fun decodedBoard :: "decoded \<Rightarrow> Board option" where
  "decodedBoard (Decoded gs) = Some (board gs)"
| "decodedBoard TypeError = None"
| "decodedBoard (DecodedNaN gs) = Some (board gs)"

text \<open>
  Two squares on one row, one column or one diagonal: the pairs for which the rook,
  bishop and queen rules start the walk of \<open>isPathClear\<close>.
\<close>

definition aligned :: "Position \<Rightarrow> Position \<Rightarrow> bool" where
  "aligned from to = (row to - row from = 0 \<or> col to - col from = 0 \<or>
     \<bar>row to - row from\<bar> = \<bar>col to - col from\<bar>)"

section \<open>Properties of the rules engine\<close>

text \<open>
  The equations of the mutually recursive functions are used by name; as rewrite rules
  they would unfold the whole scan.
\<close>

declare isPieceMovementValid.simps [simp del] isCastlingValid.simps [simp del]
  isSquareUnderAttack.simps [simp del]

lemma kingPathLoop_True:
  "kingPathLoop cs r byColor gs = Some True \<Longrightarrow> c \<in> set cs \<Longrightarrow>
   isSquareUnderAttack \<lparr>row = r, col = c\<rparr> byColor gs = Some False"
  by (induction cs) (auto split: option.splits bool.splits)

subsection \<open>Reading a board after a write\<close>

lemma rowRead_rowWrite:
  "rowRead (rowWrite r c v) c' = (if c' = c \<and> 0 \<le> c then v else rowRead r c')"
proof (cases "c < 0")
  case True
  then show ?thesis by (simp add: rowWrite_def)
next
  case nonneg: False
  show ?thesis
  proof (cases "c < int (length r)")
    case True
    then show ?thesis
      using nonneg by (auto simp: rowRead_def rowWrite_def nth_list_update nat_eq_iff)
  next
    case False
    then have len: "length (rowWrite r c v) = nat c + 1"
      using nonneg by (simp add: rowWrite_def)
    have w: "rowWrite r c v = r @ replicate (nat c - length r) None @ [v]"
      using nonneg False by (simp add: rowWrite_def)
    show ?thesis
    proof (cases "0 \<le> c' \<and> c' < int (length r)")
      case True
      then have "nat c' < length r" "c' \<noteq> c" using False by auto
      then show ?thesis using True by (simp add: rowRead_def w nth_append)
    next
      case out: False
      show ?thesis
      proof (cases "c' = c")
        case True
        have "\<not> nat c < length r" "nat c - length r = nat c - length r"
          using nonneg False by auto
        then show ?thesis
          using nonneg True len by (simp add: rowRead_def) (simp add: w nth_append)
      next
        case ne: False
        have "rowRead r c' = None" using out by (auto simp: rowRead_def)
        moreover have "rowRead (rowWrite r c v) c' = None"
        proof (cases "0 \<le> c' \<and> c' < c")
          case True
          then have "nat c' - length r < nat c - length r" "\<not> nat c' < length r"
            using out by auto
          then show ?thesis using True len by (simp add: rowRead_def) (simp add: w nth_append)
        next
          case False
          then show ?thesis using ne len nonneg by (auto simp: rowRead_def)
        qed
        ultimately show ?thesis using ne by simp
      qed
    qed
  qed
qed

lemma boardRead_boardWrite:
  assumes "boardWrite b r c v = Some b'"
  shows "boardRead b' r' c' =
     (if r' = r \<and> c' = c \<and> 0 \<le> c then Some v else boardRead b r' c')"
  using assms
  by (auto simp: boardRead_def boardWrite_def rowRead_rowWrite nth_list_update split: if_splits)

subsection \<open>What an accepted move consists of\<close>

lemma makeMove_accepted:
  assumes "makeMove from to gs = Some (Some gs')"
  obtains pc captured enPassant b1 b2 b3 newBoard label where
    "isValidMove from to gs = Some True"
    "boardRead (board gs) (row from) (col from) = Some (Some pc)"
    "boardRead (board gs) (row to) (col to) = Some captured"
    "isEnPassantMove pc from to gs = Some enPassant"
    "boardWrite (board gs) (row to) (col to) (Some (pc\<lparr>hasMoved := True\<rparr>)) = Some b1"
    "boardWrite b1 (row from) (col from) None = Some b2"
    "(if isCastlingMove pc from to then handleCastling from to b2 else Some b2) = Some b3"
    "(if enPassant
      then boardWrite b3 (if color pc = White then row to + 1 else row to - 1) (col to) None
      else Some b3) = Some newBoard"
    "board gs' = newBoard"
    "currentPlayer gs' = (if currentPlayer gs = White then Black else White)"
    "capturedPieces gs' =
       (case captured of None \<Rightarrow> capturedPieces gs | Some cp \<Rightarrow> capturedPieces gs @ [cp])"
    "winner gs' = None"
    "lastMove gs' = Some \<lparr>mfrom = from, mto = to, piece = pc, capturedPiece = captured,
        isCheck = None, isCheckmate = None, isStalemate = None,
        isCastling = isCastlingMove pc from to, isEnPassant = enPassant,
        promotion = None, notationText = label\<rparr>"
    "moveHistory gs' = moveHistory gs @ [the (lastMove gs')]"
    "getGameStatus (gs'\<lparr>gameStatus := Playing\<rparr>) = Some (gameStatus gs')"
  using assms unfolding makeMove_def Let_def
  by (auto split: option.splits bool.splits if_splits)

subsection \<open>The rules read only the board, the castling rights and the en-passant target\<close>

lemma isPawnMoveValid_sameRules:
  assumes "sameRules gs2 gs"
  shows "isPawnMoveValid pc from to gs2 = isPawnMoveValid pc from to gs"
proof -
  have "board gs2 = board gs" "enPassantTarget gs2 = enPassantTarget gs"
    using assms by (simp_all add: sameRules_def)
  then show ?thesis unfolding isPawnMoveValid_def by (simp only:)
qed

lemma engine_sameRules:
  "\<forall>gs2. sameRules gs2 gs \<longrightarrow> isPieceMovementValid pc from to gs2 = isPieceMovementValid pc from to gs"
  "\<forall>gs2. sameRules gs2 gs \<longrightarrow> isCastlingValid pc from to gs2 = isCastlingValid pc from to gs"
  "\<forall>gs2. sameRules gs2 gs \<longrightarrow> kingPathLoop cs r c gs2 = kingPathLoop cs r c gs"
  "\<forall>gs2. sameRules gs2 gs \<longrightarrow> isSquareUnderAttack position c gs2 = isSquareUnderAttack position c gs"
  "\<forall>gs2. sameRules gs2 gs \<longrightarrow> attackLoop sqs position c gs2 = attackLoop sqs position c gs"
proof (induction pc "from" to gs and pc "from" to gs and cs r c gs and position c gs
    and sqs position c gs
    rule: isPieceMovementValid_isCastlingValid_kingPathLoop_isSquareUnderAttack_attackLoop.induct)
  case (1 pc "from" to gs)
  show ?case
  proof (intro allI impI)
    fix gs2 assume same: "sameRules gs2 gs"
    then have b: "board gs2 = board gs" by (simp add: sameRules_def)
    show "isPieceMovementValid pc from to gs2 = isPieceMovementValid pc from to gs"
    proof (cases "ptype pc = King \<and>
        \<not> (\<bar>row to - row from\<bar> \<le> 1 \<and> \<bar>col to - col from\<bar> \<le> 1)")
      case True
      with "1.IH"[OF refl refl refl refl] same
      have "isCastlingValid pc from to gs2 = isCastlingValid pc from to gs" by blast
      then show ?thesis
        using True by (auto simp add: isPieceMovementValid.simps[of pc "from" to] Let_def)
    next
      case False
      then show ?thesis
        using b isPawnMoveValid_sameRules[OF same, of pc "from" to]
        by (cases "ptype pc") (auto simp add: isPieceMovementValid.simps[of pc "from" to] Let_def)
    qed
  qed
next
  case (2 pc "from" to gs)
  show ?case
  proof (intro allI impI)
    fix gs2 assume same: "sameRules gs2 gs"
    then have b: "board gs2 = board gs" "castlingRights gs2 = castlingRights gs"
      by (simp_all add: sameRules_def)
    show "isCastlingValid pc from to gs2 = isCastlingValid pc from to gs"
      unfolding isCastlingValid.simps[of pc "from" to gs]
        isCastlingValid.simps[of pc "from" to gs2] Let_def b
      using "2.IH"[OF _ _ refl refl _ _ refl _ refl refl] same
      by (intro option.case_cong[OF refl] bool.case_cong[OF refl] if_cong[OF refl] refl) blast
  qed
next
  case (3 r byColor gs)
  show ?case by simp
next
  case (4 c cs r byColor gs)
  show ?case
  proof (intro allI impI)
    fix gs2 assume same: "sameRules gs2 gs"
    with "4.IH"(1) have a: "isSquareUnderAttack \<lparr>row = r, col = c\<rparr> byColor gs2 =
        isSquareUnderAttack \<lparr>row = r, col = c\<rparr> byColor gs" by blast
    show "kingPathLoop (c # cs) r byColor gs2 = kingPathLoop (c # cs) r byColor gs"
      using "4.IH"(2) same by (auto simp: a split: option.splits bool.splits)
  qed
next
  case (5 position byColor gs)
  then show ?case by (simp add: isSquareUnderAttack.simps)
next
  case (6 position byColor gs)
  show ?case by simp
next
  case (7 sq rest position byColor gs)
  show ?case
  proof (intro allI impI)
    fix gs2 assume same: "sameRules gs2 gs"
    then have b: "board gs2 = board gs" by (simp add: sameRules_def)
    show "attackLoop (sq # rest) position byColor gs2 = attackLoop (sq # rest) position byColor gs"
      unfolding attackLoop.simps(2)[of sq rest position byColor gs]
        attackLoop.simps(2)[of sq rest position byColor gs2] Let_def b
      using "7.IH"(1) "7.IH"(2)[OF _ _ _ _ refl refl] "7.IH"(3,4,5) same
      by (intro option.case_cong bool.case_cong if_cong[OF refl] refl) metis+
  qed
qed

lemma sameRules_status: "sameRules (gs\<lparr>gameStatus := s\<rparr>) gs"
  by (simp add: sameRules_def)

lemma isSquareUnderAttack_status:
  "isSquareUnderAttack position c (gs\<lparr>gameStatus := s\<rparr>) = isSquareUnderAttack position c gs"
  using engine_sameRules(4) sameRules_status by blast

lemma isPieceMovementValid_status:
  "isPieceMovementValid pc from to (gs\<lparr>gameStatus := s\<rparr>) = isPieceMovementValid pc from to gs"
  using engine_sameRules(1) sameRules_status by blast

lemma isInCheck_status: "isInCheck (gs\<lparr>gameStatus := s\<rparr>) = isInCheck gs"
  by (simp add: isInCheck_def isSquareUnderAttack_status Let_def
      cong del: option.case_cong_weak if_weak_cong)

lemma isValidMove_status: "isValidMove from to (gs\<lparr>gameStatus := s\<rparr>) = isValidMove from to gs"
proof -
  have "makeTemporaryMove from to (gs\<lparr>gameStatus := s\<rparr>) =
      map_option (\<lambda>t. t\<lparr>gameStatus := s\<rparr>) (makeTemporaryMove from to gs)"
    by (simp add: makeTemporaryMove_def split: option.split)
  then have "wouldLeaveKingInCheck from to (gs\<lparr>gameStatus := s\<rparr>) =
      wouldLeaveKingInCheck from to gs"
    by (simp add: wouldLeaveKingInCheck_def isInCheck_status split: option.split)
  then show ?thesis
    by (simp add: isValidMove_def isPieceMovementValid_status
        cong del: option.case_cong_weak if_weak_cong bool.case_cong_weak)
qed

subsection \<open>The legal-move scan finds a move exactly when one exists\<close>

lemma position_eta: "\<lparr>row = row p, col = col p\<rparr> = (p :: Position)"
  by (cases p) simp

lemma squares_iff: "(r, c) \<in> set squares \<longleftrightarrow> 0 \<le> r \<and> r \<le> 7 \<and> 0 \<le> c \<and> c \<le> 7"
  by (auto simp: squares_def)

lemma isValidMove_True:
  assumes "isValidMove from to gs = Some True"
  obtains pc target where
    "getPieceAt (board gs) from = Some (Some pc)" "color pc = currentPlayer gs"
    "isValidPosition from" "isValidPosition to"
    "getPieceAt (board gs) to = Some target"
    "\<And>t. target = Some t \<Longrightarrow> color t \<noteq> color pc"
    "isPieceMovementValid pc from to gs = Some True"
    "wouldLeaveKingInCheck from to gs = Some False"
proof -
  from assms obtain pc where pc: "getPieceAt (board gs) from = Some (Some pc)"
    by (auto simp: isValidMove_def split: option.splits)
  then have vf: "isValidPosition from"
    by (auto simp: getPieceAt_def split: if_splits)
  from assms pc obtain target where
    "color pc = currentPlayer gs" "isValidPosition to"
    "getPieceAt (board gs) to = Some target"
    "\<And>t. target = Some t \<Longrightarrow> color t \<noteq> color pc"
    "isPieceMovementValid pc from to gs = Some True"
    "wouldLeaveKingInCheck from to gs = Some False"
    by (auto simp: isValidMove_def split: option.splits if_splits bool.splits)
  with pc vf that show thesis by blast
qed

lemma validMovesLoop_Nil:
  "validMovesLoop from gs sqs = Some [] \<Longrightarrow> sq \<in> set sqs \<Longrightarrow>
   isValidMove from \<lparr>row = fst sq, col = snd sq\<rparr> gs = Some False"
  by (induction sqs) (auto simp: Let_def split: option.splits if_splits)

lemma validMovesLoop_Cons:
  "validMovesLoop from gs sqs = Some ms \<Longrightarrow> ms \<noteq> [] \<Longrightarrow>
   \<exists>sq \<in> set sqs. isValidMove from \<lparr>row = fst sq, col = snd sq\<rparr> gs = Some True"
  by (induction sqs arbitrary: ms) (auto simp: Let_def split: option.splits if_splits)

lemma getValidMoves_Nil:
  assumes "getValidMoves from gs = Some []"
  shows "isValidMove from to gs \<noteq> Some True"
proof
  assume v: "isValidMove from to gs = Some True"
  then obtain pc where pc: "getPieceAt (board gs) from = Some (Some pc)"
    "color pc = currentPlayer gs" and vt: "isValidPosition to"
    by (rule isValidMove_True)
  then have loop: "validMovesLoop from gs squares = Some []"
    using assms by (simp add: getValidMoves_def)
  have "(row to, col to) \<in> set squares"
    using vt by (simp add: squares_iff isValidPosition_def)
  from validMovesLoop_Nil[OF loop this] v show False by (simp add: position_eta)
qed

lemma getValidMoves_Cons:
  assumes "getValidMoves from gs = Some ms" "ms \<noteq> []"
  shows "\<exists>to. isValidMove from to gs = Some True"
proof -
  from assms have "validMovesLoop from gs squares = Some ms"
    by (auto simp: getValidMoves_def split: option.splits if_splits)
  from validMovesLoop_Cons[OF this assms(2)] show ?thesis by blast
qed

lemma hasValidMovesLoop_True:
  "hasValidMovesLoop gs sqs = Some True \<Longrightarrow> \<exists>from to. isValidMove from to gs = Some True"
proof (induction sqs)
  case Nil
  then show ?case by simp
next
  case (Cons sq sqs)
  then show ?case
    by (auto split: option.splits if_splits) (meson getValidMoves_Cons)
qed

lemma hasValidMovesLoop_False:
  "hasValidMovesLoop gs sqs = Some False \<Longrightarrow> (row from, col from) \<in> set sqs \<Longrightarrow>
   isValidMove from to gs \<noteq> Some True"
proof (induction sqs)
  case Nil
  then show ?case by simp
next
  case (Cons sq sqs)
  show ?case
  proof (cases "sq = (row from, col from)")
    case False
    with Cons show ?thesis by (auto split: option.splits if_splits)
  next
    case True
    then have f: "\<lparr>row = fst sq, col = snd sq\<rparr> = from" by (simp add: position_eta)
    show ?thesis
    proof
      assume v: "isValidMove from to gs = Some True"
      then obtain pc where pc: "getPieceAt (board gs) from = Some (Some pc)"
        "color pc = currentPlayer gs" "isValidPosition from"
        by (rule isValidMove_True)
      then have cell: "boardRead (board gs) (fst sq) (snd sq) = Some (Some pc)"
        using True by (simp add: getPieceAt_def)
      with Cons.prems(1) pc(2) f have "getValidMoves from gs = Some []"
        by (auto split: option.splits if_splits)
      from getValidMoves_Nil[OF this] v show False by blast
    qed
  qed
qed

lemma hasValidMoves_iff:
  assumes "hasValidMoves gs = Some h"
  shows "h \<longleftrightarrow> (\<exists>from to. isValidMove from to gs = Some True)"
proof (cases h)
  case True
  with assms show ?thesis
    using hasValidMovesLoop_True[of gs squares] by (simp add: hasValidMoves_def)
next
  case False
  have "isValidMove from to gs \<noteq> Some True" for "from" to
  proof
    assume v: "isValidMove from to gs = Some True"
    then have "isValidPosition from" by (rule isValidMove_True)
    then have "(row from, col from) \<in> set squares"
      by (simp add: squares_iff isValidPosition_def)
    with hasValidMovesLoop_False[of gs squares "from" to] assms False v
    show False by (simp add: hasValidMoves_def)
  qed
  with False show ?thesis by blast
qed

lemma piecesFrom_refl: "piecesFrom b b"
  by (auto simp: piecesFrom_def keepsKind_def)

lemma piecesFrom_write:
  assumes "piecesFrom old b" "boardWrite b r c v = Some b'"
    and "\<And>p'. v = Some p' \<Longrightarrow> \<exists>r0 c0 p. boardRead old r0 c0 = Some (Some p) \<and> keepsKind p p'"
  shows "piecesFrom old b'"
  unfolding piecesFrom_def
proof (intro allI impI)
  fix r' c' p'
  assume rd: "boardRead b' r' c' = Some (Some p')"
  show "\<exists>r0 c0 p. boardRead old r0 c0 = Some (Some p) \<and> keepsKind p p'"
  proof (cases "r' = r \<and> c' = c \<and> 0 \<le> c")
    case True
    then have "v = Some p'" using rd boardRead_boardWrite[OF assms(2), of r' c'] by simp
    then show ?thesis by (rule assms(3))
  next
    case False
    then have "boardRead b r' c' = Some (Some p')"
      using rd boardRead_boardWrite[OF assms(2), of r' c'] by auto
    then show ?thesis using assms(1) by (auto simp: piecesFrom_def)
  qed
qed

lemma piecesFrom_handleCastling:
  assumes "piecesFrom old b" "handleCastling from to b = Some b'"
  shows "piecesFrom old b'"
proof -
  from assms(2) obtain rook b1 where
    rook: "boardRead b (row from) (if col to > col from then 7 else 0) = Some rook"
    and w1: "boardWrite b (row from) (if col to > col from then 5 else 3)
        (case rook of None \<Rightarrow> None | Some rk \<Rightarrow> Some (rk\<lparr>hasMoved := True\<rparr>)) = Some b1"
    and w2: "boardWrite b1 (row from) (if col to > col from then 7 else 0) None = Some b'"
    by (auto simp: handleCastling_def Let_def split: option.splits)
  have "piecesFrom old b1"
  proof (rule piecesFrom_write[OF assms(1) w1])
    fix p' assume "(case rook of None \<Rightarrow> None | Some rk \<Rightarrow> Some (rk\<lparr>hasMoved := True\<rparr>)) = Some p'"
    then obtain rk where "rook = Some rk" "p' = rk\<lparr>hasMoved := True\<rparr>"
      by (auto split: option.splits)
    with rook assms(1) show "\<exists>r0 c0 p. boardRead old r0 c0 = Some (Some p) \<and> keepsKind p p'"
      by (fastforce simp: piecesFrom_def keepsKind_def)
  qed
  then show ?thesis by (rule piecesFrom_write[OF _ w2]) simp
qed

subsection \<open>On a grid of eight rows every function of the engine returns\<close>

text \<open>
  A read of a row that does not exist is the only thing that throws in the engine, and
  the walk of \<open>isPathClear\<close> is its only loop without a bound. On a grid of eight rows
  (of any lengths) neither happens: the walk is only started along a row, a column or
  a diagonal and between two rows of the grid, and every other read is at a row between
  0 and 7. So \<open>isValidMove\<close>, \<open>getGameStatus\<close> and \<open>makeMove\<close> have a value for every
  pair of positions.
\<close>

lemma pathLoop_returns:
  assumes "0 \<le> row to" "row to < int (length b)"
    and "rs = -1 \<or> rs = 0 \<or> rs = 1"
  shows "row to - r = int k * rs \<Longrightarrow> col to - c = int k * cs \<Longrightarrow>
     (0 \<le> r \<and> r < int (length b)) \<Longrightarrow>
     pathLoop b to rs cs r c \<noteq> None"
proof (induction k arbitrary: r c)
  case 0
  then show ?case by (auto simp add: pathLoop.simps)
next
  case (Suc k)
  show ?case
  proof (cases "r \<noteq> row to \<or> c \<noteq> col to")
    case False
    then show ?thesis by (auto simp add: pathLoop.simps)
  next
    case True
    obtain x where rd: "boardRead b r c = Some x"
      using Suc.prems(3) by (simp add: boardRead_def)
    show ?thesis
    proof (cases x)
      case (Some pc)
      then show ?thesis using True rd by (simp add: pathLoop.simps[of b to rs cs r c])
    next
      case None
      have a: "row to - (r + rs) = int k * rs" using Suc.prems(1) by (simp add: algebra_simps)
      have b: "col to - (c + cs) = int k * cs" using Suc.prems(2) by (simp add: algebra_simps)
      have "0 \<le> r + rs \<and> r + rs < int (length b)"
        using assms Suc.prems(1,3) by (auto simp: algebra_simps)
      from Suc.IH[OF a b this] show ?thesis
        using True rd None by (simp add: pathLoop.simps[of b to rs cs r c])
    qed
  qed
qed

lemma isPathClear_returns:
  assumes "aligned from to" "0 \<le> row from" "row from < int (length b)"
    "0 \<le> row to" "row to < int (length b)"
  shows "isPathClear from to b \<noteq> None"
proof (cases "row to = row from \<and> col to = col from")
  case True
  then show ?thesis by (auto simp add: isPathClear_def pathLoop.simps)
next
  case False
  define rs :: int where "rs = (if row to = row from then 0 else if row to > row from then 1 else -1)"
  define cs :: int where "cs = (if col to = col from then 0 else if col to > col from then 1 else -1)"
  define d where "d = max \<bar>row to - row from\<bar> \<bar>col to - col from\<bar>"
  have d1: "1 \<le> d" using False by (auto simp: d_def)
  have dr: "row to - row from = d * rs"
    using assms(1) by (auto simp: aligned_def d_def rs_def split: if_splits)
  have dc: "col to - col from = d * cs"
    using assms(1) by (auto simp: aligned_def d_def cs_def split: if_splits)
  have a: "row to - (row from + rs) = int (nat (d - 1)) * rs"
    using dr d1 by (simp add: algebra_simps)
  have b: "col to - (col from + cs) = int (nat (d - 1)) * cs"
    using dc d1 by (simp add: algebra_simps)
  have rng: "0 \<le> row from + rs \<and> row from + rs < int (length b)"
    using assms(2-5) by (auto simp: rs_def)
  have "rs = -1 \<or> rs = 0 \<or> rs = 1" by (simp add: rs_def)
  from pathLoop_returns[OF assms(4,5) this a b rng] show ?thesis
    by (simp add: isPathClear_def rs_def cs_def Let_def)
qed


lemma boardRead_returns: "0 \<le> r \<Longrightarrow> r < int (length b) \<Longrightarrow> boardRead b r c \<noteq> None"
  by (simp add: boardRead_def)

lemma getPieceAt_returns: "length b = 8 \<Longrightarrow> getPieceAt b p \<noteq> None"
  by (simp add: getPieceAt_def isValidPosition_def boardRead_def)

lemma castlingPathLoop_returns:
  "0 \<le> r \<Longrightarrow> r < int (length b) \<Longrightarrow> castlingPathLoop b r cs \<noteq> None"
proof (induction cs)
  case Nil
  then show ?case by simp
next
  case (Cons c cs)
  then show ?case
    using boardRead_returns[of r b c] by (auto split: option.splits)
qed

lemma isPawnMoveValid_returns:
  "length (board gs) = 8 \<Longrightarrow> isPawnMoveValid pc from to gs \<noteq> None"
  using getPieceAt_returns[of "board gs" to]
  by (auto simp: isPawnMoveValid_def Let_def split: option.splits)

lemma ret_if:
  "(c \<Longrightarrow> a \<noteq> None) \<Longrightarrow> (\<not> c \<Longrightarrow> b \<noteq> None) \<Longrightarrow> (if c then a else b) \<noteq> None"
  by simp

lemma ret_option:
  "(x = None \<Longrightarrow> a \<noteq> None) \<Longrightarrow> (\<And>y. x = Some y \<Longrightarrow> f y \<noteq> None) \<Longrightarrow>
   (case x of None \<Rightarrow> a | Some y \<Rightarrow> f y) \<noteq> None"
  by (cases x) simp_all

lemma ret_bool:
  "(b \<Longrightarrow> t \<noteq> None) \<Longrightarrow> (\<not> b \<Longrightarrow> e \<noteq> None) \<Longrightarrow> (case b of True \<Rightarrow> t | False \<Rightarrow> e) \<noteq> None"
  by (cases b) simp_all

lemma engine_returns:
  "length (board gs) = 8 \<longrightarrow> 0 \<le> row from \<and> row from < 8 \<longrightarrow> 0 \<le> row to \<and> row to < 8 \<longrightarrow>
     isPieceMovementValid pc from to gs \<noteq> None"
  "length (board gs) = 8 \<longrightarrow> 0 \<le> row from \<and> row from < 8 \<longrightarrow> 0 \<le> row to \<and> row to < 8 \<longrightarrow>
     isCastlingValid pc from to gs \<noteq> None"
  "length (board gs) = 8 \<longrightarrow> 0 \<le> r \<and> r < 8 \<longrightarrow> kingPathLoop cs r c gs \<noteq> None"
  "length (board gs) = 8 \<longrightarrow> 0 \<le> row position \<and> row position < 8 \<longrightarrow>
     isSquareUnderAttack position c gs \<noteq> None"
  "length (board gs) = 8 \<longrightarrow> 0 \<le> row position \<and> row position < 8 \<longrightarrow>
     (\<forall>sq \<in> set sqs. 0 \<le> fst sq \<and> fst sq < 8) \<longrightarrow>
     attackLoop sqs position c gs \<noteq> None"
proof (induction pc "from" to gs and pc "from" to gs and cs r c gs and position c gs
    and sqs position c gs
    rule: isPieceMovementValid_isCastlingValid_kingPathLoop_isSquareUnderAttack_attackLoop.induct)
  case (1 pc "from" to gs)
  show ?case
  proof (intro impI)
    assume len: "length (board gs) = 8" and f: "0 \<le> row from \<and> row from < 8"
      and t: "0 \<le> row to \<and> row to < 8"
    have path: "isPathClear from to (board gs) \<noteq> None" if "aligned from to"
      using isPathClear_returns[OF that] len f t by simp
    show "isPieceMovementValid pc from to gs \<noteq> None"
    proof (cases "ptype pc")
      case King
      show ?thesis
      proof (cases "\<bar>row to - row from\<bar> \<le> 1 \<and> \<bar>col to - col from\<bar> \<le> 1")
        case True
        then show ?thesis using King by (simp add: isPieceMovementValid.simps Let_def)
      next
        case False
        with "1.IH"[OF refl refl refl refl King] len f t
        have "isCastlingValid pc from to gs \<noteq> None" by simp
        then obtain y where "isCastlingValid pc from to gs = Some y" by blast
        then show ?thesis using King False by (auto simp: isPieceMovementValid.simps Let_def)
      qed
    next
      case Pawn
      then show ?thesis
        using isPawnMoveValid_returns[OF len] by (simp add: isPieceMovementValid.simps Let_def)
    next
      case Rook
      then show ?thesis
        using path by (auto simp: isPieceMovementValid.simps Let_def aligned_def)
    next
      case Bishop
      then show ?thesis
        using path by (auto simp: isPieceMovementValid.simps Let_def aligned_def)
    next
      case Queen
      then show ?thesis
        using path by (auto simp: isPieceMovementValid.simps Let_def aligned_def)
    qed (simp_all add: isPieceMovementValid.simps Let_def)
  qed
next
  case (2 pc "from" to gs)
  show ?case
  proof (intro impI)
    assume len: "length (board gs) = 8" and f: "0 \<le> row from \<and> row from < 8"
      and t: "0 \<le> row to \<and> row to < 8"
    note ih = "2.IH"[OF _ _ refl refl _ _ refl _ refl refl, rule_format, OF _ _ _ _ _ _ _ len f]
    have cp: "castlingPathLoop (board gs) r cols \<noteq> None" if "0 \<le> r" "r < 8" for r cols
      using castlingPathLoop_returns[of r "board gs" cols] len that by simp
    have gp: "getPieceAt (board gs) p \<noteq> None" for p
      by (rule getPieceAt_returns[OF len])
    show "isCastlingValid pc from to gs \<noteq> None"
      unfolding isCastlingValid.simps[of pc "from" to gs] Let_def
      apply (intro ret_if ret_option ret_bool)
      using ih f t
             apply (simp_all add: cp gp)
      done
  qed
next
  case (3 r byColor gs)
  then show ?case by simp
next
  case (4 c cs r byColor gs)
  show ?case
    using "4.IH"(1) "4.IH"(2)[of False] by (auto split: option.splits bool.splits)
next
  case (5 position byColor gs)
  have "\<forall>sq \<in> set squares. 0 \<le> fst sq \<and> fst sq < 8"
    by (auto simp: squares_def)
  with 5 show ?case
    unfolding isSquareUnderAttack.simps[of position byColor gs] by blast
next
  case (6 position byColor gs)
  then show ?case by simp
next
  case (7 sq rest position byColor gs)
  show ?case
  proof (intro impI)
    assume len: "length (board gs) = 8" and p: "0 \<le> row position \<and> row position < 8"
      and sqs: "\<forall>s \<in> set (sq # rest). 0 \<le> fst s \<and> fst s < 8"
    then have rd: "boardRead (board gs) (fst sq) (snd sq) \<noteq> None"
      using boardRead_returns[of "fst sq" "board gs" "snd sq"] by simp
    have rest: "\<forall>s \<in> set rest. 0 \<le> fst s \<and> fst s < 8" using sqs by simp
    show "attackLoop (sq # rest) position byColor gs \<noteq> None"
      unfolding attackLoop.simps(2)[of sq rest position byColor gs] Let_def
      apply (intro ret_if ret_option ret_bool)
      using "7.IH"(1) "7.IH"(2)[OF _ _ _ _ refl refl] "7.IH"(3,4,5) len p rest sqs
                apply (simp_all add: rd)
      done
  qed
qed


lemma boardWrite_returns:
  "0 \<le> r \<Longrightarrow> r < int (length b) \<Longrightarrow> \<exists>b'. boardWrite b r c v = Some b' \<and> length b' = length b"
  by (simp add: boardWrite_def)

lemma findKingLoop_returns:
  "\<forall>sq \<in> set sqs. 0 \<le> fst sq \<and> fst sq < int (length b) \<Longrightarrow> findKingLoop b k sqs \<noteq> None"
proof (induction sqs)
  case Nil
  show ?case by simp
next
  case (Cons sq sqs)
  then have "boardRead b (fst sq) (snd sq) \<noteq> None"
    using boardRead_returns[of "fst sq" b "snd sq"] by simp
  with Cons show ?case by (auto split: option.splits)
qed

lemma findKingLoop_found:
  "findKingLoop b k sqs = Some (Some p) \<Longrightarrow> (row p, col p) \<in> set sqs"
  by (induction sqs) (auto split: option.splits if_splits)

lemma isInCheck_returns:
  assumes "length (board gs) = 8"
  shows "isInCheck gs \<noteq> None"
proof -
  have rows: "\<forall>sq \<in> set squares. 0 \<le> fst sq \<and> fst sq < int (length (board gs))"
    using assms by (auto simp: squares_def)
  from findKingLoop_returns[OF rows] obtain found where
    found: "findKingLoop (board gs) (currentPlayer gs) squares = Some found" by blast
  show ?thesis
  proof (cases found)
    case None
    with found show ?thesis by (simp add: isInCheck_def)
  next
    case (Some p)
    with found have "(row p, col p) \<in> set squares" by (simp add: findKingLoop_found)
    then have "0 \<le> row p \<and> row p < 8" by (auto simp: squares_def)
    with engine_returns(4)[of gs p] assms
    have "isSquareUnderAttack p (if currentPlayer gs = White then Black else White) gs \<noteq> None"
      by blast
    with found Some show ?thesis by (simp add: isInCheck_def)
  qed
qed

lemma wouldLeaveKingInCheck_returns:
  assumes "length (board gs) = 8" "0 \<le> row from" "row from < 8" "0 \<le> row to" "row to < 8"
  shows "wouldLeaveKingInCheck from to gs \<noteq> None"
proof -
  from assms obtain pc where pc: "boardRead (board gs) (row from) (col from) = Some pc"
    using boardRead_returns[of "row from" "board gs" "col from"] by auto
  from assms obtain b1 where b1: "boardWrite (board gs) (row to) (col to) pc = Some b1"
    "length b1 = 8"
    using boardWrite_returns[of "row to" "board gs" "col to" pc] by auto
  with assms obtain b2 where b2: "boardWrite b1 (row from) (col from) None = Some b2"
    "length b2 = 8"
    using boardWrite_returns[of "row from" b1 "col from" None] by auto
  have "isInCheck (gs\<lparr>board := b2\<rparr>) \<noteq> None"
    using b2 by (intro isInCheck_returns) simp
  then show ?thesis
    using pc b1 b2 by (simp add: wouldLeaveKingInCheck_def makeTemporaryMove_def)
qed

lemma isValidMove_returns:
  assumes len: "length (board gs) = 8"
  shows "isValidMove from to gs \<noteq> None"
proof -
  have gp: "getPieceAt (board gs) p \<noteq> None" for p
    by (rule getPieceAt_returns[OF len])
  have inner: "isPieceMovementValid pc from to gs \<noteq> None \<and> wouldLeaveKingInCheck from to gs \<noteq> None"
    if "getPieceAt (board gs) from = Some (Some pc)" "isValidPosition to" for pc
  proof -
    from that(1) have "isValidPosition from"
      by (auto simp: getPieceAt_def split: if_splits)
    then have rows: "0 \<le> row from" "row from < 8" "0 \<le> row to" "row to < 8"
      using that(2) by (simp_all add: isValidPosition_def)
    then show ?thesis
      using engine_returns(1)[of gs "from" to pc] wouldLeaveKingInCheck_returns[OF len rows]
        len by blast
  qed
  show ?thesis
    unfolding isValidMove_def
    apply (intro ret_if ret_option ret_bool)
    using inner
            apply (simp_all add: gp)
    done
qed

lemma validMovesLoop_returns:
  "length (board gs) = 8 \<Longrightarrow> validMovesLoop from gs sqs \<noteq> None"
proof (induction sqs)
  case Nil
  show ?case by simp
next
  case (Cons sq sqs)
  then show ?case
    using isValidMove_returns[of gs "from" "\<lparr>row = fst sq, col = snd sq\<rparr>"]
    by (auto simp: Let_def split: option.splits)
qed

lemma getValidMoves_returns:
  "length (board gs) = 8 \<Longrightarrow> getValidMoves from gs \<noteq> None"
  using getPieceAt_returns[of "board gs" "from"] validMovesLoop_returns[of gs "from" squares]
  by (auto simp: getValidMoves_def split: option.splits)

lemma hasValidMovesLoop_returns:
  "length (board gs) = 8 \<Longrightarrow> \<forall>sq \<in> set sqs. 0 \<le> fst sq \<and> fst sq < 8 \<Longrightarrow>
   hasValidMovesLoop gs sqs \<noteq> None"
proof (induction sqs)
  case Nil
  show ?case by simp
next
  case (Cons sq sqs)
  then have "boardRead (board gs) (fst sq) (snd sq) \<noteq> None"
    using boardRead_returns[of "fst sq" "board gs" "snd sq"] by simp
  with Cons show ?case
    using getValidMoves_returns[of gs "\<lparr>row = fst sq, col = snd sq\<rparr>"]
    by (auto split: option.splits)
qed

lemma getGameStatus_returns:
  assumes "length (board gs) = 8"
  shows "getGameStatus gs \<noteq> None"
proof -
  have "\<forall>sq \<in> set squares. 0 \<le> fst sq \<and> fst sq < 8" by (auto simp: squares_def)
  with assms have "hasValidMoves gs \<noteq> None"
    unfolding hasValidMoves_def by (rule hasValidMovesLoop_returns)
  with isInCheck_returns[OF assms] show ?thesis
    by (auto simp: getGameStatus_def split: option.splits)
qed


lemma handleCastling_returns:
  assumes "0 \<le> row from" "row from < int (length b)"
  shows "\<exists>b'. handleCastling from to b = Some b' \<and> length b' = length b"
proof -
  define rf where "rf = (if col to > col from then 7 else 0 :: int)"
  define rt where "rt = (if col to > col from then 5 else 3 :: int)"
  from assms obtain rook where rook: "boardRead b (row from) rf = Some rook"
    using boardRead_returns[of "row from" b rf] by auto
  define v where "v = (case rook of None \<Rightarrow> None | Some rk \<Rightarrow> Some (rk\<lparr>hasMoved := True\<rparr>))"
  from assms obtain b1 where b1: "boardWrite b (row from) rt v = Some b1" "length b1 = length b"
    using boardWrite_returns[of "row from" b rt v] by auto
  with assms obtain b2 where "boardWrite b1 (row from) rf None = Some b2" "length b2 = length b"
    using boardWrite_returns[of "row from" b1 rf None] by auto
  with rook b1 show ?thesis
    unfolding handleCastling_def Let_def rf_def[symmetric] rt_def[symmetric]
    by (simp add: v_def)
qed

lemma enPassant_row:
  assumes "isPieceMovementValid pc from to gs = Some True" "ptype pc = Pawn"
    "\<bar>col to - col from\<bar> = 1"
  shows "(if color pc = White then row to + 1 else row to - 1) = row from"
proof -
  from assms(1,2) have "isPawnMoveValid pc from to gs = Some True"
    by (simp add: isPieceMovementValid.simps Let_def)
  with assms(3) show ?thesis
    by (auto simp: isPawnMoveValid_def Let_def split: option.splits if_splits)
qed

lemma accepted_kind:
  assumes "isPieceMovementValid pc from to gs = Some True"
  shows "ptype pc \<noteq> NoType"
  using assms by (auto simp: isPieceMovementValid.simps Let_def)

lemma generateMoveNotation_returns:
  "ptype (piece move) \<noteq> NoType \<Longrightarrow> generateMoveNotation move gs \<noteq> None"
  by (cases "ptype (piece move)") (simp_all add: generateMoveNotation_def)

lemma makeMove_returns:
  assumes len: "length (board gs) = 8"
  shows "makeMove from to gs \<noteq> None"
proof -
  from isValidMove_returns[OF len] obtain ok where ok: "isValidMove from to gs = Some ok" by blast
  show ?thesis
  proof (cases ok)
    case False
    with ok show ?thesis by (simp add: makeMove_def)
  next
    case True
    with ok have v: "isValidMove from to gs = Some True" by simp
    then obtain pc target where
      pc: "getPieceAt (board gs) from = Some (Some pc)" and vf: "isValidPosition from"
      and vt: "isValidPosition to" and tg: "getPieceAt (board gs) to = Some target"
      and mv: "isPieceMovementValid pc from to gs = Some True"
      by (rule isValidMove_True)
    from vf vt have rows: "0 \<le> row from" "row from < 8" "0 \<le> row to" "row to < 8"
      by (simp_all add: isValidPosition_def)
    from pc vf have rd: "boardRead (board gs) (row from) (col from) = Some (Some pc)"
      by (simp add: getPieceAt_def)
    from tg vt have rt: "boardRead (board gs) (row to) (col to) = Some target"
      by (simp add: getPieceAt_def)
    have "isEnPassantMove pc from to gs \<noteq> None"
      using tg by (auto simp: isEnPassantMove_def)
    then obtain enPassant where ep: "isEnPassantMove pc from to gs = Some enPassant" by blast
    from rows len obtain b1 where
      b1: "boardWrite (board gs) (row to) (col to) (Some (pc\<lparr>hasMoved := True\<rparr>)) = Some b1"
        "length b1 = 8"
      using boardWrite_returns[of "row to" "board gs" "col to" "Some (pc\<lparr>hasMoved := True\<rparr>)"]
      by auto
    with rows obtain b2 where
      b2: "boardWrite b1 (row from) (col from) None = Some b2" "length b2 = 8"
      using boardWrite_returns[of "row from" b1 "col from" None] by auto
    obtain b3 where
      b3: "(if isCastlingMove pc from to then handleCastling from to b2 else Some b2) = Some b3"
        "length b3 = 8"
      using handleCastling_returns[of "from" b2 to] rows b2 by (cases "isCastlingMove pc from to") auto
    obtain newBoard where
      nb: "(if enPassant
            then boardWrite b3 (if color pc = White then row to + 1 else row to - 1) (col to) None
            else Some b3) = Some newBoard" "length newBoard = 8"
    proof (cases enPassant)
      case False
      with b3 that show thesis by simp
    next
      case True
      with ep have "ptype pc = Pawn" "\<bar>col to - col from\<bar> = 1"
        by (auto simp: isEnPassantMove_def split: if_splits option.splits)
      from enPassant_row[OF mv this]
      have "(if color pc = White then row to + 1 else row to - 1) = row from" .
      with True that rows b3
        boardWrite_returns[of "row from" b3 "col to" None]
      show thesis by auto
    qed
    define move where "move = \<lparr>mfrom = from, mto = to, piece = pc, capturedPiece = target,
        isCheck = None, isCheckmate = None, isStalemate = None,
        isCastling = isCastlingMove pc from to, isEnPassant = enPassant,
        promotion = None, notationText = []\<rparr>"
    define newGameState where "newGameState =
        \<lparr>board = newBoard,
         currentPlayer = (if currentPlayer gs = White then Black else White),
         moveHistory = moveHistory gs,
         capturedPieces =
           (case target of None \<Rightarrow> capturedPieces gs | Some cp \<Rightarrow> capturedPieces gs @ [cp]),
         gameStatus = Playing, winner = None, lastMove = Some move,
         enPassantTarget = getEnPassantTarget move,
         castlingRights = updateCastlingRights (castlingRights gs) move\<rparr>"
    have "ptype (piece move) \<noteq> NoType"
      using accepted_kind[OF mv] by (simp add: move_def)
    then obtain label where label: "generateMoveNotation move newGameState = Some label"
      using generateMoveNotation_returns[of move newGameState] by blast
    define pushed where "pushed = newGameState\<lparr>lastMove := Some (move\<lparr>notationText := label\<rparr>),
        moveHistory := moveHistory gs @ [move\<lparr>notationText := label\<rparr>]\<rparr>"
    have "length (board pushed) = 8"
      using nb by (simp add: pushed_def newGameState_def)
    then obtain status where st: "getGameStatus pushed = Some status"
      using getGameStatus_returns[of pushed] by blast
    have "makeMove from to gs = Some (Some (pushed\<lparr>gameStatus := status\<rparr>))"
      unfolding makeMove_def Let_def
      using v rd rt ep b1 b2 b3 nb label st
      unfolding move_def newGameState_def pushed_def
      by (simp add: move_def)
    then show ?thesis by simp
  qed
qed

subsection \<open>C6: the straight double step of a pawn\<close>

text \<open>
  C6. For a pawn of either colour, \<open>isPawnMoveValid\<close> judges a straight advance of two
  rows (same column, two rows in the pawn's direction) legal exactly when the
  destination square is empty and the pawn stands on row 6 (white) or row 1 (black).
  The square in between is not read: the right-hand side mentions only the destination
  and the origin row. The value is \<open>None\<close> only where reading the destination throws.
\<close>

theorem pawn_double_step:
  assumes "col to = col from"
    and "row to - row from = 2 * (if color pc = White then -1 else 1)"
  shows "isPawnMoveValid pc from to gs =
     (case getPieceAt (board gs) to of
        None \<Rightarrow> None
      | Some target \<Rightarrow>
          Some (target = None \<and>
                ((color pc = White \<and> row from = 6) \<or> (color pc = Black \<and> row from = 1))))"
  using assms by (cases "color pc") (auto simp: isPawnMoveValid_def Let_def split: option.splits)

text \<open>
  At a concrete input: a white pawn on e2 with a black knight on e3 in front of it; the
  double step to e4 is judged legal, by the pawn predicate and by \<open>isValidMove\<close>.
\<close>

theorem pawn_double_step_witness:
  "boardRead (board blockedPawn) 5 4 = Some (pieceOf Knight Black ''n-5-4'' True) \<and>
   isPawnMoveValid \<lparr>ptype = Pawn, color = White, pid = ''P-6-4'', hasMoved = False\<rparr>
     \<lparr>row = 6, col = 4\<rparr> \<lparr>row = 4, col = 4\<rparr> blockedPawn = Some True \<and>
   isValidMove \<lparr>row = 6, col = 4\<rparr> \<lparr>row = 4, col = 4\<rparr> blockedPawn = Some True"
proof -
  have "isValidMove \<lparr>row = 6, col = 4\<rparr> \<lparr>row = 4, col = 4\<rparr> blockedPawn = Some True"
    by code_simp
  moreover have "boardRead (board blockedPawn) 5 4 = Some (pieceOf Knight Black ''n-5-4'' True)"
    by code_simp
  moreover have "getPieceAt (board blockedPawn) \<lparr>row = 4, col = 4\<rparr> = Some None"
    by code_simp
  ultimately show ?thesis
    using pawn_double_step[of "\<lparr>row = 4, col = 4\<rparr>" "\<lparr>row = 6, col = 4\<rparr>"
        "\<lparr>ptype = Pawn, color = White, pid = ''P-6-4'', hasMoved = False\<rparr>" blockedPawn]
    by simp
qed

subsection \<open>C5: what an accepted castling attempt implies\<close>

text \<open>
  C5. If \<open>isValidMove\<close> accepts a move of a king along its row by two columns, then
  the king's moved-flag is false; the corner square of that row (column 7 when the king
  moves right, column 0 when it moves left) holds a rook of the king's colour whose
  moved-flag is false; the castling right of that colour and side is true; every square
  strictly between the king's column and the rook's column is empty; and none of the
  king's origin, middle and destination squares is attacked by the other colour on the
  board before the move.
\<close>

theorem castling_requirements:
  assumes valid: "isValidMove from to gs = Some True"
    and king: "getPieceAt (board gs) from = Some (Some k)" "ptype k = King"
    and attempt: "row to = row from" "\<bar>col to - col from\<bar> = 2"
  shows "\<not> hasMoved k \<and>
     (\<exists>rk. getPieceAt (board gs) \<lparr>row = row from, col = (if col to > col from then 7 else 0)\<rparr>
             = Some (Some rk) \<and>
           ptype rk = Rook \<and> color rk = color k \<and> \<not> hasMoved rk) \<and>
     (if color k = White
      then (if col to > col from then whiteKingSide (castlingRights gs)
            else whiteQueenSide (castlingRights gs))
      else (if col to > col from then blackKingSide (castlingRights gs)
            else blackQueenSide (castlingRights gs))) \<and>
     (\<forall>c. min (col from) (if col to > col from then 7 else 0) < c \<and>
          c < max (col from) (if col to > col from then 7 else 0) \<longrightarrow>
          boardRead (board gs) (row from) c = Some None) \<and>
     (\<forall>c \<in> {col from, (col from + col to) div 2, col to}.
        isSquareUnderAttack \<lparr>row = row from, col = c\<rparr> (opponent (color k)) gs = Some False)"
proof -
  have pmv: "isPieceMovementValid k from to gs = Some True"
    using valid king by (auto simp: isValidMove_def split: option.splits if_splits bool.splits)
  have far: "\<not> (\<bar>row to - row from\<bar> \<le> 1 \<and> \<bar>col to - col from\<bar> \<le> 1)"
    using attempt by simp
  have cv: "isCastlingValid k from to gs = Some True"
    using pmv king(2) far by (simp add: isPieceMovementValid.simps Let_def)
  define rookCol :: int where "rookCol = (if col to > col from then 7 else 0)"
  define kingPath where "kingPath = (if col to > col from
      then [col from, col from + 1, col from + 2] else [col from, col from - 1, col from - 2])"
  from cv obtain rk where nm: "\<not> hasMoved k"
    and rk: "getPieceAt (board gs) \<lparr>row = row from, col = rookCol\<rparr> = Some (Some rk)"
      "ptype rk = Rook" "color rk = color k" "\<not> hasMoved rk"
    and rights: "if color k = White
      then (if col to > col from then whiteKingSide (castlingRights gs)
            else whiteQueenSide (castlingRights gs))
      else (if col to > col from then blackKingSide (castlingRights gs)
            else blackQueenSide (castlingRights gs))"
    and path: "castlingPathLoop (board gs) (row from)
        [min (col from) rookCol + 1 .. max (col from) rookCol - 1] = Some True"
    and kp: "kingPathLoop kingPath (row from) (opponent (color k)) gs = Some True"
    unfolding rookCol_def kingPath_def
    by (simp add: isCastlingValid.simps Let_def split: if_splits option.splits bool.splits)
  have clear: "boardRead (board gs) (row from) c = Some None"
    if "min (col from) rookCol < c" "c < max (col from) rookCol" for c
    using castlingPathLoop_clear[OF path, of c] that by simp
  have mid: "{col from, (col from + col to) div 2, col to} \<subseteq> set kingPath"
    using attempt(2) by (auto simp: kingPath_def)
  have safe: "isSquareUnderAttack \<lparr>row = row from, col = c\<rparr> (opponent (color k)) gs = Some False"
    if "c \<in> {col from, (col from + col to) div 2, col to}" for c
    using kingPathLoop_True[OF kp, of c] mid that by blast
  show ?thesis
    using nm rk rights clear safe unfolding rookCol_def by blast
qed

text \<open>At a concrete input: white castles king side from the home squares.\<close>

theorem castling_requirements_witness:
  "isValidMove \<lparr>row = 7, col = 4\<rparr> \<lparr>row = 7, col = 6\<rparr> castlePosition = Some True \<and>
   whiteKingSide (castlingRights castlePosition) \<and>
   boardRead (board castlePosition) 7 5 = Some None \<and>
   boardRead (board castlePosition) 7 6 = Some None \<and>
   isSquareUnderAttack \<lparr>row = 7, col = 4\<rparr> Black castlePosition = Some False \<and>
   isSquareUnderAttack \<lparr>row = 7, col = 5\<rparr> Black castlePosition = Some False \<and>
   isSquareUnderAttack \<lparr>row = 7, col = 6\<rparr> Black castlePosition = Some False"
proof -
  have v: "isValidMove \<lparr>row = 7, col = 4\<rparr> \<lparr>row = 7, col = 6\<rparr> castlePosition = Some True"
    by code_simp
  have k: "getPieceAt (board castlePosition) \<lparr>row = 7, col = 4\<rparr> =
      Some (Some \<lparr>ptype = King, color = White, pid = ''K-7-4'', hasMoved = False\<rparr>)"
    by code_simp
  note t = castling_requirements[OF v k, simplified]
  from t v show ?thesis
    by (auto simp: opponent_def)
qed

subsection \<open>C2: the status of the state after a move\<close>

text \<open>
  C2. In the state an accepted \<open>makeMove\<close> returns, the side to move is the other
  colour, \<open>isInCheck\<close> returns for it, and the status is derived for that side:
  \<open>Checkmate\<close> if it has no legal move (\<open>isValidMove\<close> accepts none) and its king is
  attacked, \<open>Stalemate\<close> if it has no legal move and its king is not attacked, \<open>Check\<close>
  if it has a legal move and its king is attacked, and \<open>Playing\<close> otherwise.
\<close>

theorem status_after_move:
  assumes "makeMove from to gs = Some (Some gs')"
  shows "currentPlayer gs' = opponent (currentPlayer gs) \<and>
     (\<exists>inCheck. isInCheck gs' = Some inCheck \<and>
        gameStatus gs' =
          (if \<exists>f t. isValidMove f t gs' = Some True
           then (if inCheck then Check else Playing)
           else (if inCheck then Checkmate else Stalemate)))"
proof -
  from assms have player: "currentPlayer gs' = opponent (currentPlayer gs)"
    and status: "getGameStatus (gs'\<lparr>gameStatus := Playing\<rparr>) = Some (gameStatus gs')"
    by (auto elim!: makeMove_accepted simp: opponent_def)
  from status obtain h c where
    h: "hasValidMoves (gs'\<lparr>gameStatus := Playing\<rparr>) = Some h"
    and c: "isInCheck (gs'\<lparr>gameStatus := Playing\<rparr>) = Some c"
    and st: "gameStatus gs' =
      (if \<not> h then (if c then Checkmate else Stalemate) else (if c then Check else Playing))"
    by (auto simp: getGameStatus_def split: option.splits if_splits)
  have "h \<longleftrightarrow> (\<exists>f t. isValidMove f t gs' = Some True)"
    using hasValidMoves_iff[OF h] by (simp add: isValidMove_status)
  moreover have "isInCheck gs' = Some c"
    using c by (simp add: isInCheck_status)
  ultimately show ?thesis using player st by auto
qed

text \<open>
  At a concrete input: the white queen goes from c1 to c7 and leaves the black king on
  a8 without a move and not attacked. That no move at all is legal is not something
  evaluation can decide; it follows from the theorem.
\<close>

theorem status_after_move_witness:
  "(case makeMove \<lparr>row = 7, col = 2\<rparr> \<lparr>row = 1, col = 2\<rparr> queenStale of
      Some (Some s) \<Rightarrow>
        currentPlayer s = Black \<and> isInCheck s = Some False \<and> gameStatus s = Stalemate \<and>
        \<not> (\<exists>f t. isValidMove f t s = Some True)
    | _ \<Rightarrow> False)"
proof -
  have "(case makeMove \<lparr>row = 7, col = 2\<rparr> \<lparr>row = 1, col = 2\<rparr> queenStale of
      Some (Some s) \<Rightarrow> isInCheck s = Some False \<and> gameStatus s = Stalemate
    | _ \<Rightarrow> False)"
    by code_simp
  then obtain s where s: "makeMove \<lparr>row = 7, col = 2\<rparr> \<lparr>row = 1, col = 2\<rparr> queenStale = Some (Some s)"
    and c: "isInCheck s = Some False" and st: "gameStatus s = Stalemate"
    by (auto split: option.splits)
  have w: "currentPlayer queenStale = White"
    by (simp add: queenStale_def gameAt_def)
  from status_after_move[OF s] c st w
  have "currentPlayer s = Black" "\<not> (\<exists>f t. isValidMove f t s = Some True)"
    by (auto simp: opponent_def split: if_splits)
  then show ?thesis using s c st by simp
qed

subsection \<open>C3: the winner field\<close>

text \<open>
  C3 as stated fails: the queen's move from h7 to b7 mates the black king on a8, the
  state returned has status \<open>Checkmate\<close>, and its winner is not White, the side that
  moved.
\<close>

theorem checkmate_without_winner:
  "(case makeMove \<lparr>row = 1, col = 7\<rparr> \<lparr>row = 1, col = 1\<rparr> queenMate of
      Some (Some s) \<Rightarrow>
        currentPlayer queenMate = White \<and> gameStatus s = Checkmate \<and> winner s \<noteq> Some White
    | _ \<Rightarrow> False)"
  by code_simp

text \<open>
  C3, amended. \<open>makeMove\<close> never sets the winner: in every state it returns, also one
  whose status is \<open>Checkmate\<close>, the winner field is unset.
\<close>

theorem winner_never_set:
  assumes "makeMove from to gs = Some (Some gs')"
  shows "winner gs' = None"
  using assms by (rule makeMove_accepted)

theorem winner_never_set_witness:
  "(case makeMove \<lparr>row = 1, col = 7\<rparr> \<lparr>row = 1, col = 1\<rparr> queenMate of
      Some (Some s) \<Rightarrow> gameStatus s = Checkmate \<and> winner s = None
    | _ \<Rightarrow> False)"
proof -
  have "(case makeMove \<lparr>row = 1, col = 7\<rparr> \<lparr>row = 1, col = 1\<rparr> queenMate of
      Some (Some s) \<Rightarrow> gameStatus s = Checkmate
    | _ \<Rightarrow> False)"
    by code_simp
  then obtain s where s: "makeMove \<lparr>row = 1, col = 7\<rparr> \<lparr>row = 1, col = 1\<rparr> queenMate = Some (Some s)"
    and st: "gameStatus s = Checkmate"
    by (auto split: option.splits)
  from winner_never_set[OF s] s st show ?thesis by simp
qed

subsection \<open>C10: a move changes no piece's kind\<close>

text \<open>
  C10. After an accepted move, every piece on the resulting board has the kind, colour
  and identity of a piece of the board before the move; a pawn that moved stands on the
  destination square as the same pawn, its moved-flag set (also on the last rank); and
  the move record, the last of the history, has no promotion.
\<close>

theorem makeMove_keeps_kinds:
  assumes "makeMove from to gs = Some (Some gs')"
  shows "(\<forall>r c p'. boardRead (board gs') r c = Some (Some p') \<longrightarrow>
            (\<exists>r0 c0 p. boardRead (board gs) r0 c0 = Some (Some p) \<and>
               ptype p' = ptype p \<and> color p' = color p \<and> pid p' = pid p)) \<and>
         (\<forall>pc. boardRead (board gs) (row from) (col from) = Some (Some pc) \<and> ptype pc = Pawn \<longrightarrow>
            boardRead (board gs') (row to) (col to) = Some (Some (pc\<lparr>hasMoved := True\<rparr>))) \<and>
         (\<exists>mv. lastMove gs' = Some mv \<and> promotion mv = None \<and>
            moveHistory gs' = moveHistory gs @ [mv])"
proof -
  from assms obtain pc captured enPassant b1 b2 b3 newBoard label where
    valid: "isValidMove from to gs = Some True"
    and pc: "boardRead (board gs) (row from) (col from) = Some (Some pc)"
    and w1: "boardWrite (board gs) (row to) (col to) (Some (pc\<lparr>hasMoved := True\<rparr>)) = Some b1"
    and w2: "boardWrite b1 (row from) (col from) None = Some b2"
    and w3: "(if isCastlingMove pc from to then handleCastling from to b2 else Some b2) = Some b3"
    and w4: "(if enPassant
      then boardWrite b3 (if color pc = White then row to + 1 else row to - 1) (col to) None
      else Some b3) = Some newBoard"
    and nb: "board gs' = newBoard"
    and lm: "lastMove gs' = Some \<lparr>mfrom = from, mto = to, piece = pc, capturedPiece = captured,
        isCheck = None, isCheckmate = None, isStalemate = None,
        isCastling = isCastlingMove pc from to, isEnPassant = enPassant,
        promotion = None, notationText = label\<rparr>"
    and mh: "moveHistory gs' = moveHistory gs @ [the (lastMove gs')]"
    by (rule makeMove_accepted)
  have p1: "piecesFrom (board gs) b1"
    by (rule piecesFrom_write[OF piecesFrom_refl w1]) (use pc in \<open>auto simp: keepsKind_def\<close>)
  have p2: "piecesFrom (board gs) b2"
    by (rule piecesFrom_write[OF p1 w2]) simp
  have p3: "piecesFrom (board gs) b3"
    using w3 p2 piecesFrom_handleCastling by (auto split: if_splits)
  have p4: "piecesFrom (board gs) newBoard"
    using w4 p3 piecesFrom_write[of "board gs" b3 _ _ None newBoard] by (auto split: if_splits)
  have kinds: "\<forall>r c p'. boardRead (board gs') r c = Some (Some p') \<longrightarrow>
            (\<exists>r0 c0 p. boardRead (board gs) r0 c0 = Some (Some p) \<and>
               ptype p' = ptype p \<and> color p' = color p \<and> pid p' = pid p)"
    using p4 nb by (simp add: piecesFrom_def keepsKind_def)
  have pawn: "boardRead (board gs') (row to) (col to) = Some (Some (pc\<lparr>hasMoved := True\<rparr>))"
    if "ptype pc = Pawn"
  proof -
    from valid obtain pc' target where
      pc': "getPieceAt (board gs) from = Some (Some pc')" and vf: "isValidPosition from"
      and vt: "isValidPosition to" and tg: "getPieceAt (board gs) to = Some target"
      and own: "\<And>t. target = Some t \<Longrightarrow> color t \<noteq> color pc'"
      by (rule isValidMove_True) blast
    have ne: "\<not> (row to = row from \<and> col to = col from)"
    proof
      assume "row to = row from \<and> col to = col from"
      then have "getPieceAt (board gs) to = getPieceAt (board gs) from"
        by (simp add: getPieceAt_def isValidPosition_def)
      with pc' tg own show False by auto
    qed
    have c0: "0 \<le> col to" using vt by (simp add: isValidPosition_def)
    have r1: "boardRead b1 (row to) (col to) = Some (Some (pc\<lparr>hasMoved := True\<rparr>))"
      using boardRead_boardWrite[OF w1, of "row to" "col to"] c0 by simp
    have r2: "boardRead b2 (row to) (col to) = Some (Some (pc\<lparr>hasMoved := True\<rparr>))"
      using boardRead_boardWrite[OF w2, of "row to" "col to"] r1 ne by auto
    have b3: "b3 = b2" using w3 that by (simp add: isCastlingMove_def)
    have "boardRead newBoard (row to) (col to) = Some (Some (pc\<lparr>hasMoved := True\<rparr>))"
    proof (cases enPassant)
      case False
      then show ?thesis using w4 r2 b3 by simp
    next
      case True
      then have w: "boardWrite b3 (if color pc = White then row to + 1 else row to - 1)
          (col to) None = Some newBoard" using w4 by simp
      show ?thesis
        using boardRead_boardWrite[OF w, of "row to" "col to"] r2 b3 by (auto split: if_splits)
    qed
    then show ?thesis using nb by simp
  qed
  show ?thesis
    using kinds pawn pc lm mh by auto
qed

text \<open>At a concrete input: the white pawn on a7 steps to a8 and is still a pawn.\<close>

theorem makeMove_keeps_kinds_witness:
  "(case makeMove \<lparr>row = 1, col = 0\<rparr> \<lparr>row = 0, col = 0\<rparr> lastRankPawn of
      Some (Some s) \<Rightarrow>
        boardRead (board s) 0 0 =
          Some (Some \<lparr>ptype = Pawn, color = White, pid = ''P-6-0'', hasMoved = True\<rparr>) \<and>
        (\<exists>mv. lastMove s = Some mv \<and> promotion mv = None)
    | _ \<Rightarrow> False)"
proof -
  have "(case makeMove \<lparr>row = 1, col = 0\<rparr> \<lparr>row = 0, col = 0\<rparr> lastRankPawn of
      Some (Some s) \<Rightarrow> True | _ \<Rightarrow> False)"
    by code_simp
  then obtain s where s: "makeMove \<lparr>row = 1, col = 0\<rparr> \<lparr>row = 0, col = 0\<rparr> lastRankPawn = Some (Some s)"
    by (auto split: option.splits)
  have p: "boardRead (board lastRankPawn) 1 0 =
      Some (Some \<lparr>ptype = Pawn, color = White, pid = ''P-6-0'', hasMoved = True\<rparr>)"
    by code_simp
  from makeMove_keeps_kinds[OF s] p s show ?thesis by auto
qed

subsection \<open>C1: the king of the side that moved\<close>

text \<open>
  C1 fails on the code at an en-passant capture. Black plays c7-c5 beside the white
  pawn on b5; the white king stands on a5 and a black rook on h5, the two pawns between
  them. White is not in check. \<open>makeMove\<close> accepts b5xc6 en passant: the simulated move
  of \<open>wouldLeaveKingInCheck\<close> leaves the black pawn on c5, which still shields the king,
  while the executed move removes it. In the state returned the white king on a5 is
  attacked by the rook.
\<close>

theorem enPassant_exposes_king:
  "(case makeMove \<lparr>row = 1, col = 2\<rparr> \<lparr>row = 3, col = 2\<rparr> pinnedPawn of
      Some (Some s1) \<Rightarrow>
        enPassantTarget s1 = Some \<lparr>row = 2, col = 2\<rparr> \<and>
        currentPlayer s1 = White \<and> isInCheck s1 = Some False \<and>
        isValidMove \<lparr>row = 3, col = 1\<rparr> \<lparr>row = 2, col = 2\<rparr> s1 = Some True \<and>
        (case makeMove \<lparr>row = 3, col = 1\<rparr> \<lparr>row = 2, col = 2\<rparr> s1 of
           Some (Some s2) \<Rightarrow>
             findKingLoop (board s2) White squares = Some (Some \<lparr>row = 3, col = 0\<rparr>) \<and>
             isSquareUnderAttack \<lparr>row = 3, col = 0\<rparr> Black s2 = Some True
         | _ \<Rightarrow> False)
    | _ \<Rightarrow> False)"
  by code_simp

subsection \<open>C7: king moves of more than one square\<close>

text \<open>
  C7 fails on the code: \<open>isCastlingValid\<close> never looks at the distance, so a king that
  may castle is also allowed to go three columns along its row. From the home squares,
  with b1, c1 and d1 empty, \<open>isValidMove\<close> accepts e1-b1; \<open>isCastlingMove\<close> does test the
  distance, so \<open>makeMove\<close> moves the king alone and the rook stays on a1.
\<close>

theorem king_three_columns_accepted:
  "isValidMove \<lparr>row = 7, col = 4\<rparr> \<lparr>row = 7, col = 1\<rparr> castlePosition = Some True \<and>
   (case makeMove \<lparr>row = 7, col = 4\<rparr> \<lparr>row = 7, col = 1\<rparr> castlePosition of
      Some (Some s) \<Rightarrow>
        boardRead (board s) 7 1 = Some (pieceOf King White ''K-7-4'' True) \<and>
        boardRead (board s) 7 0 = Some (pieceOf Rook White ''R-7-0'' False) \<and>
        map_option isCastling (lastMove s) = Some False
    | _ \<Rightarrow> False)"
  by code_simp

subsection \<open>C8: the pawn captured en passant\<close>

text \<open>
  C8 holds for the board and fails for the list of captured pieces. Black plays d7-d5
  beside the white pawn on e5 and white captures en passant on d6: the black pawn is
  gone from d5, and the list of captured pieces of the new state is as empty as before;
  the move record has no captured piece either.
\<close>

theorem enPassant_capture_not_recorded:
  "(case makeMove \<lparr>row = 1, col = 3\<rparr> \<lparr>row = 3, col = 3\<rparr> passingPawns of
      Some (Some s1) \<Rightarrow>
        enPassantTarget s1 = Some \<lparr>row = 2, col = 3\<rparr> \<and>
        boardRead (board s1) 3 3 = Some (pieceOf Pawn Black ''p-1-3'' True) \<and>
        capturedPieces s1 = [] \<and>
        (case makeMove \<lparr>row = 3, col = 4\<rparr> \<lparr>row = 2, col = 3\<rparr> s1 of
           Some (Some s2) \<Rightarrow>
             map_option isEnPassant (lastMove s2) = Some True \<and>
             boardRead (board s2) 2 3 = Some (pieceOf Pawn White ''P-6-4'' True) \<and>
             boardRead (board s2) 3 3 = Some None \<and>
             capturedPieces s2 = [] \<and>
             map_option capturedPiece (lastMove s2) = Some None
         | _ \<Rightarrow> False)
    | _ \<Rightarrow> False)"
  by code_simp

section \<open>Properties of the position codec\<close>

subsection \<open>The loops, row by row\<close>

lemma fenColLoop_rowText:
  assumes "0 \<le> r" "r < int (length b)"
  shows "0 \<le> c \<Longrightarrow> nat c + n = length (b ! nat r) \<Longrightarrow>
     fenColLoop b r [c .. c + int n - 1] k = rowText (drop (nat c) (b ! nat r)) k"
proof (induction n arbitrary: c k)
  case 0
  then show ?case by simp
next
  case (Suc n)
  define cs where "cs = [c + 1 .. (c + 1) + int n - 1]"
  define xs where "xs = drop (nat (c + 1)) (b ! nat r)"
  define x where "x = (b ! nat r) ! nat c"
  have up: "[c .. c + int (Suc n) - 1] = c # cs"
    unfolding cs_def by (simp add: upto_rec1)
  have lt: "nat c < length (b ! nat r)" using Suc.prems by simp
  have dr: "drop (nat c) (b ! nat r) = x # xs"
    unfolding x_def xs_def using lt Suc.prems(1) by (simp add: Cons_nth_drop_Suc nat_add_distrib)
  have "c < int (length (b ! nat r))" using lt Suc.prems(1) by linarith
  then have rd: "boardRead b r c = Some x"
    unfolding x_def using assms Suc.prems(1) by (simp add: boardRead_def rowRead_def)
  have ih: "fenColLoop b r cs k' = rowText xs k'" for k'
    unfolding cs_def xs_def using Suc.IH[of "c + 1" k'] Suc.prems by (simp add: nat_add_distrib)
  show ?case
    unfolding up dr
    by (cases x) (simp_all add: rd ih split: option.splits)
qed

lemma parseInt_digit:
  assumes "CHR ''1'' = ch \<or> CHR ''2'' = ch \<or> CHR ''3'' = ch \<or> CHR ''4'' = ch \<or>
         CHR ''5'' = ch \<or> CHR ''6'' = ch \<or> CHR ''7'' = ch \<or> CHR ''8'' = ch"
  shows "\<exists>n. parseInt (Some ch) = Some n"
  using assms by (elim disjE) (auto simp: parseInt_def)

lemma fenCharLoop_rowParse:
  "0 \<le> r \<Longrightarrow> r < int (length b) \<Longrightarrow>
   fenCharLoop b r c s = Some (b[nat r := rowParse (b ! nat r) r c s])"
proof (induction s arbitrary: b c)
  case Nil
  then show ?case by simp
next
  case (Cons ch rest)
  show ?case
  proof (cases "CHR ''1'' = ch \<or> CHR ''2'' = ch \<or> CHR ''3'' = ch \<or> CHR ''4'' = ch \<or>
         CHR ''5'' = ch \<or> CHR ''6'' = ch \<or> CHR ''7'' = ch \<or> CHR ''8'' = ch")
    case True
    from parseInt_digit[OF this] obtain n where "parseInt (Some ch) = Some n" ..
    then show ?thesis using True Cons.IH[OF Cons.prems] by simp
  next
    case False
    define v where "v = Some (FENCharToPiece ch ([ch] @ ''-'' @ intToString r @ ''-'' @ intToString c))"
    define b1 where "b1 = b[nat r := rowWrite (b ! nat r) c v]"
    have w: "boardWrite b r c v = Some b1"
      using Cons.prems by (simp add: boardWrite_def b1_def)
    have len: "r < int (length b1)" using Cons.prems by (simp add: b1_def)
    have row: "b1 ! nat r = rowWrite (b ! nat r) c v"
      using Cons.prems by (simp add: b1_def)
    have l: "fenCharLoop b r c (ch # rest) =
        (case boardWrite b r c v of None \<Rightarrow> None | Some b1 \<Rightarrow> fenCharLoop b1 r (c + 1) rest)"
      using False unfolding v_def by simp
    have p: "rowParse (b ! nat r) r c (ch # rest) = rowParse (rowWrite (b ! nat r) c v) r (c + 1) rest"
      using False unfolding v_def by simp
    show ?thesis
      unfolding l p using w Cons.IH[OF Cons.prems(1) len, of "c + 1"]
      by (simp add: row) (simp add: b1_def)
  qed
qed


lemma natToString_small:
  "0 < k \<Longrightarrow> k \<le> 8 \<Longrightarrow> natToString k = [''12345678'' ! (k - 1)]"
proof -
  assume "0 < k" "k \<le> 8"
  then have "k = 1 \<or> k = 2 \<or> k = 3 \<or> k = 4 \<or> k = 5 \<or> k = 6 \<or> k = 7 \<or> k = 8" by auto
  then show ?thesis by (elim disjE) (simp_all add: natToString.simps)
qed

lemma rowParse_count:
  assumes "k \<le> 8"
  shows "rowParse cells r c ((if k > 0 then natToString k else []) @ t) = rowParse cells r (c + int k) t"
proof (cases "k = 0")
  case True
  then show ?thesis by simp
next
  case False
  with assms have "k = 1 \<or> k = 2 \<or> k = 3 \<or> k = 4 \<or> k = 5 \<or> k = 6 \<or> k = 7 \<or> k = 8" by auto
  then show ?thesis
    by (elim disjE) (simp_all add: natToString.simps parseInt_def)
qed

lemma pieceToFENChar_letter:
  assumes "ptype pc \<noteq> NoType"
  obtains ch where "pieceToFENChar pc = Some [ch]"
    "\<not> (CHR ''1'' = ch \<or> CHR ''2'' = ch \<or> CHR ''3'' = ch \<or> CHR ''4'' = ch \<or>
        CHR ''5'' = ch \<or> CHR ''6'' = ch \<or> CHR ''7'' = ch \<or> CHR ''8'' = ch)"
    "typeMap (toLowerCase ch) = ptype pc" "(ch = toUpperCase ch) = (color pc = White)"
    "ch \<noteq> CHR ''/''" "ch \<noteq> CHR '' ''"
  using assms
  by (cases "ptype pc"; cases "color pc")
     (simp_all add: pieceToFENChar_def toUpperCase_def toLowerCase_def typeMap_def)


lemma cellKind_FENCharToPiece:
  assumes "typeMap (toLowerCase ch) = ptype pc" "(ch = toUpperCase ch) = (color pc = White)"
  shows "cellKind (Some (FENCharToPiece ch ident)) = cellKind (Some pc)"
  using assms by (cases "color pc") (auto simp: cellKind_def FENCharToPiece_def)

lemma rowParse_rowText:
  "list_all (\<lambda>x. map_option ptype x \<noteq> Some NoType) xs \<Longrightarrow> rowText xs k = Some s \<Longrightarrow>
   length pre + k + length xs = 8 \<Longrightarrow>
   map cellKind (rowParse (pre @ replicate (k + length xs) None) r (int (length pre)) s) =
     map cellKind pre @ replicate k None @ map cellKind xs"
proof (induction xs arbitrary: pre k s)
  case Nil
  then have k: "k \<le> 8" and s: "s = (if k > 0 then natToString k else []) @ []" by simp_all
  show ?case
    unfolding s rowParse_count[OF k] by (simp add: cellKind_def)
next
  case (Cons x xs)
  show ?case
  proof (cases x)
    case None
    with Cons.prems have "rowText xs (k + 1) = Some s"
      "list_all (\<lambda>x. map_option ptype x \<noteq> Some NoType) xs" "length pre + (k + 1) + length xs = 8"
      by simp_all
    from Cons.IH[OF this(2) this(1) this(3)] None show ?thesis
      by (simp add: cellKind_def replicate_append_same)
  next
    case (Some pc)
    with Cons.prems have ok: "ptype pc \<noteq> NoType"
      and rest: "list_all (\<lambda>x. map_option ptype x \<noteq> Some NoType) xs"
      and k: "k \<le> 8" by simp_all
    from ok obtain ch where ch: "pieceToFENChar pc = Some [ch]"
      and nd: "\<not> (CHR ''1'' = ch \<or> CHR ''2'' = ch \<or> CHR ''3'' = ch \<or> CHR ''4'' = ch \<or>
        CHR ''5'' = ch \<or> CHR ''6'' = ch \<or> CHR ''7'' = ch \<or> CHR ''8'' = ch)"
      and ty: "typeMap (toLowerCase ch) = ptype pc" "(ch = toUpperCase ch) = (color pc = White)"
      by (rule pieceToFENChar_letter)
    from Cons.prems(2) Some ch obtain t where t: "rowText xs 0 = Some t"
      and s: "s = (if k > 0 then natToString k else []) @ (ch # t)"
      by (auto split: option.splits)
    define c where "c = int (length pre) + int k"
    define v where "v = Some (FENCharToPiece ch ([ch] @ ''-'' @ intToString r @ ''-'' @ intToString c))"
    define pre' where "pre' = pre @ replicate k None @ [v]"
    have shape: "pre @ replicate (k + length (x # xs)) None =
        (pre @ replicate k None) @ None # replicate (length xs) None"
      by (simp add: replicate_add replicate_append_same)
    have "nat c = length (pre @ replicate k None)" by (simp add: c_def)
    then have w: "rowWrite (pre @ replicate (k + length (x # xs)) None) c v =
        pre' @ replicate (0 + length xs) None"
      unfolding shape pre'_def rowWrite_def
      using list_update_length[of "pre @ replicate k None" None "replicate (length xs) None" v]
      by (simp add: c_def)
    have step: "rowParse (pre @ replicate (k + length (x # xs)) None) r c (ch # t) =
        rowParse (pre' @ replicate (0 + length xs) None) r (c + 1) t"
      using nd unfolding w[symmetric] v_def by simp
    have c1: "c + 1 = int (length pre')" by (simp add: pre'_def c_def)
    have len: "length pre' + 0 + length xs = 8" using Cons.prems(3) by (simp add: pre'_def)
    have kind: "cellKind v = cellKind x"
      unfolding v_def Some by (rule cellKind_FENCharToPiece[OF ty])
    show ?thesis
      unfolding s rowParse_count[OF k] c_def[symmetric] step c1
      using Cons.IH[OF rest t len] kind
      by (simp add: pre'_def cellKind_def)
  qed
qed

lemma natToString_chars: "ch \<in> set (natToString n) \<Longrightarrow> ch \<in> set ''0123456789''"
proof (induction n rule: natToString.induct)
  case (1 n)
  show ?case
  proof (cases "n < 10")
    case True
    with "1.prems" have "ch = ''0123456789'' ! n" by (simp add: natToString.simps[of n])
    then show ?thesis using True nth_mem[of n "''0123456789''"] by simp
  next
    case False
    with "1.prems" have "ch \<in> set (natToString (n div 10)) \<or> ch = ''0123456789'' ! (n mod 10)"
      by (auto simp add: natToString.simps[of n])
    moreover have "''0123456789'' ! (n mod 10) \<in> set ''0123456789''"
      by (rule nth_mem) simp
    ultimately show ?thesis using "1.IH"[OF False] by auto
  qed
qed

lemma natToString_plain: "CHR ''/'' \<notin> set (natToString n)" "CHR '' '' \<notin> set (natToString n)"
  using natToString_chars[of "CHR ''/''" n] natToString_chars[of "CHR '' ''" n] by auto

lemma rowText_plain:
  "list_all (\<lambda>x. map_option ptype x \<noteq> Some NoType) xs \<Longrightarrow>
   \<exists>s. rowText xs k = Some s \<and> CHR ''/'' \<notin> set s \<and> CHR '' '' \<notin> set s"
proof (induction xs arbitrary: k)
  case Nil
  then show ?case by (simp add: natToString_plain)
next
  case (Cons x xs)
  show ?case
  proof (cases x)
    case None
    with Cons show ?thesis by simp
  next
    case (Some pc)
    with Cons.prems have "ptype pc \<noteq> NoType" by simp
    then obtain ch where "pieceToFENChar pc = Some [ch]" "ch \<noteq> CHR ''/''" "ch \<noteq> CHR '' ''"
      by (rule pieceToFENChar_letter)
    moreover from Cons obtain t where "rowText xs 0 = Some t" "CHR ''/'' \<notin> set t" "CHR '' '' \<notin> set t"
      by fastforce
    ultimately show ?thesis using Some by (auto simp: natToString_plain)
  qed
qed

lemma splitOn_nonempty: "splitOn sep s \<noteq> []"
  by (induction s) (auto split: list.splits)

lemma splitOn_plain: "sep \<notin> set a \<Longrightarrow> splitOn sep a = [a]"
  by (induction a) auto

lemma splitOn_append: "sep \<notin> set a \<Longrightarrow> splitOn sep (a @ sep # rest) = a # splitOn sep rest"
  by (induction a) (auto split: list.splits simp: splitOn_nonempty)


lemma wellFormedBoard_row:
  assumes "wellFormedBoard b" "i < 8"
  shows "length (b ! i) = 8" "list_all (\<lambda>x. map_option ptype x \<noteq> Some NoType) (b ! i)"
  using assms by (auto simp: wellFormedBoard_def list_all_length)

lemma fenColLoop_row:
  assumes "wellFormedBoard b" "0 \<le> r" "r < 8"
  shows "fenColLoop b r [0..7] 0 = rowText (b ! nat r) 0"
proof -
  have "length b = 8" using assms(1) by (simp add: wellFormedBoard_def)
  moreover have "length (b ! nat r) = 8" using assms by (simp add: wellFormedBoard_row)
  ultimately show ?thesis
    using fenColLoop_rowText[of r b 0 8 0] assms(2,3) by simp
qed

lemma fenRowLoop_suffix:
  assumes "wellFormedBoard b"
  shows "0 \<le> r \<Longrightarrow> nat r + n = 8 \<Longrightarrow> 0 < n \<Longrightarrow>
     \<exists>s. fenRowLoop b [r .. r + int n - 1] = Some s \<and>
         splitOn CHR ''/'' s = map (\<lambda>i. the (rowText (b ! i) 0)) [nat r ..< 8] \<and>
         CHR '' '' \<notin> set s"
proof (induction n arbitrary: r)
  case 0
  then show ?case by simp
next
  case (Suc m)
  have r8: "r < 8" using Suc.prems by simp
  then have nr: "nat r < 8" using Suc.prems(1) by simp
  obtain t where t: "rowText (b ! nat r) 0 = Some t"
    and plain: "CHR ''/'' \<notin> set t" "CHR '' '' \<notin> set t"
    using rowText_plain[OF wellFormedBoard_row(2)[OF assms nr], of 0] by blast
  have col: "fenColLoop b r [0..7] 0 = Some t"
    using fenColLoop_row[OF assms Suc.prems(1) r8] t by simp
  have up: "[r .. r + int (Suc m) - 1] = r # [r + 1 .. (r + 1) + int m - 1]"
    by (simp add: upto_rec1)
  have idx: "[nat r ..< 8] = nat r # [nat (r + 1) ..< 8]"
    using nr Suc.prems(1) by (simp add: upt_conv_Cons nat_add_distrib)
  show ?case
  proof (cases "m = 0")
    case True
    then have r7: "r = 7" using Suc.prems by simp
    show ?thesis
      unfolding up using True r7 col t plain by (simp add: splitOn_plain)
  next
    case False
    then have lt7: "r < 7" using Suc.prems by simp
    from Suc.IH[of "r + 1"] False Suc.prems
    obtain s where s: "fenRowLoop b [r + 1 .. (r + 1) + int m - 1] = Some s"
      and sp: "splitOn CHR ''/'' s = map (\<lambda>i. the (rowText (b ! i) 0)) [nat (r + 1) ..< 8]"
      and ns: "CHR '' '' \<notin> set s"
      by (auto simp: nat_add_distrib)
    have "fenRowLoop b (r # [r + 1 .. (r + 1) + int m - 1]) = Some (t @ CHR ''/'' # s)"
      using col s lt7 by simp
    moreover have "splitOn CHR ''/'' (t @ CHR ''/'' # s) =
        map (\<lambda>i. the (rowText (b ! i) 0)) [nat r ..< 8]"
      unfolding idx using splitOn_append[OF plain(1), of s] sp t by simp
    moreover have "CHR '' '' \<notin> set (t @ CHR ''/'' # s)" using plain ns by simp
    ultimately show ?thesis unfolding up by blast
  qed
qed

lemma fenRankLoop_rows:
  "distinct rs \<Longrightarrow> \<forall>r \<in> set rs. 0 \<le> r \<and> r < int (length b) \<and> r < int (length ranks) \<Longrightarrow>
   \<exists>b'. fenRankLoop b ranks rs = Some b' \<and> length b' = length b \<and>
        (\<forall>r \<in> set rs. b' ! nat r = rowParse (b ! nat r) r 0 (ranks ! nat r)) \<and>
        (\<forall>i. int i \<notin> set rs \<longrightarrow> b' ! i = b ! i)"
proof (induction rs arbitrary: b)
  case Nil
  then show ?case by simp
next
  case (Cons r rs)
  define b1 where "b1 = b[nat r := rowParse (b ! nat r) r 0 (ranks ! nat r)]"
  have r: "0 \<le> r" "r < int (length b)" "r < int (length ranks)" using Cons.prems(2) by simp_all
  have cl: "fenCharLoop b r 0 (ranks ! nat r) = Some b1"
    unfolding b1_def by (rule fenCharLoop_rowParse[OF r(1,2)])
  have "distinct rs" "\<forall>r \<in> set rs. 0 \<le> r \<and> r < int (length b1) \<and> r < int (length ranks)"
    using Cons.prems by (simp_all add: b1_def)
  from Cons.IH[OF this] obtain b' where b': "fenRankLoop b1 ranks rs = Some b'"
    "length b' = length b1"
    "\<forall>q \<in> set rs. b' ! nat q = rowParse (b1 ! nat q) q 0 (ranks ! nat q)"
    "\<forall>i. int i \<notin> set rs \<longrightarrow> b' ! i = b1 ! i"
    by blast
  have notin: "r \<notin> set rs" using Cons.prems(1) by simp
  have head: "b' ! nat r = rowParse (b ! nat r) r 0 (ranks ! nat r)"
    using b'(4)[rule_format, of "nat r"] notin r by (simp add: b1_def)
  have tail: "b' ! nat q = rowParse (b ! nat q) q 0 (ranks ! nat q)" if "q \<in> set rs" for q
  proof -
    have "q \<noteq> r" using that notin by auto
    moreover have "0 \<le> q" using that Cons.prems(2) by simp
    ultimately have "nat q \<noteq> nat r" using r(1) by simp
    then show ?thesis using b'(3) that by (simp add: b1_def)
  qed
  have other: "b' ! i = b ! i" if "int i \<notin> set (r # rs)" for i
  proof -
    have "i \<noteq> nat r" using that r(1) by auto
    then show ?thesis using b'(4) that by (simp add: b1_def)
  qed
  show ?case
    using r cl b'(1,2) head tail other by (auto simp: b1_def)
qed


lemma int_cases_0_7:
  assumes "0 \<le> (i :: int)" "i < 8"
  shows "i = 0 \<or> i = 1 \<or> i = 2 \<or> i = 3 \<or> i = 4 \<or> i = 5 \<or> i = 6 \<or> i = 7"
  using assms by auto

lemma label_round_trip:
  assumes "isValidPosition e"
  shows "\<exists>f d. positionToChessNotation e = [f, d] \<and> f \<noteq> CHR '' '' \<and> d \<noteq> CHR '' '' \<and>
           chessNotationToPosition [f, d] = Some e"
proof -
  have c: "0 \<le> col e" "col e < 8" and r: "0 \<le> row e" "row e < 8"
    using assms by (simp_all add: isValidPosition_def)
  define f where "f = ''abcdefgh'' ! nat (col e)"
  have fl: "indexOf ''abcdefgh'' f = col e \<and> f \<noteq> CHR '' ''"
    unfolding f_def using int_cases_0_7[OF c] by (elim disjE) simp_all
  obtain d where d: "intToString (8 - row e) = [d]" "parseInt (Some d) = Some (8 - row e)"
    "d \<noteq> CHR '' ''"
    using int_cases_0_7[OF r]
    by (elim disjE) (simp_all add: intToString_def natToString.simps parseInt_def)
  have "positionToChessNotation e = [f, d]"
    using c d(1) by (simp add: positionToChessNotation_def f_def)
  moreover have "chessNotationToPosition [f, d] = Some e"
    using fl d(2) by (simp add: chessNotationToPosition_def charAt_def)
  ultimately show ?thesis using fl d(3) by blast
qed

lemma castling_round_trip:
  fixes rights :: CastlingRights
  defines "castling \<equiv> (if whiteKingSide rights then ''K'' else [])
                        @ (if whiteQueenSide rights then ''Q'' else [])
                        @ (if blackKingSide rights then ''k'' else [])
                        @ (if blackQueenSide rights then ''q'' else [])"
  defines "field \<equiv> (if castling = [] then ''-'' else castling)"
  shows "CHR '' '' \<notin> set field"
    and "\<lparr>whiteKingSide = CHR ''K'' \<in> set field, whiteQueenSide = CHR ''Q'' \<in> set field,
          blackKingSide = CHR ''k'' \<in> set field, blackQueenSide = CHR ''q'' \<in> set field\<rparr> = rights"
  unfolding field_def castling_def
  by (cases rights; cases "whiteKingSide rights"; cases "whiteQueenSide rights";
      cases "blackKingSide rights"; cases "blackQueenSide rights"; simp)+

subsection \<open>C4: encoding and decoding a position\<close>

text \<open>
  The en-passant target of a state the engine produces is unset or a square of the
  board: the initial state has none, and \<open>makeMove\<close> sets the square a pawn has passed
  over or none.
\<close>

lemma initial_state_target:
  "(case createInitialGameState of
      Decoded q \<Rightarrow> enPassantTarget q = None \<and> wellFormedBoard (board q)
    | _ \<Rightarrow> False)"
  by code_simp

lemma makeMove_enPassantTarget:
  assumes "makeMove from to gs = Some (Some gs')"
  shows "case enPassantTarget gs' of None \<Rightarrow> True | Some e \<Rightarrow> isValidPosition e"
proof -
  from assms have v: "isValidMove from to gs = Some True"
    by (rule makeMove_accepted)
  then have vf: "isValidPosition from" and vt: "isValidPosition to"
    by (auto elim: isValidMove_True)
  from assms have "\<exists>mv. enPassantTarget gs' = getEnPassantTarget mv \<and> mfrom mv = from \<and> mto mv = to"
    unfolding makeMove_def Let_def
    by (auto split: option.splits bool.splits if_splits)
  then obtain mv where mv: "enPassantTarget gs' = getEnPassantTarget mv" "mfrom mv = from" "mto mv = to"
    by blast
  show ?thesis
    using vf vt unfolding mv getEnPassantTarget_def
    by (auto simp: isValidPosition_def mv)
qed

text \<open>
  C4. For every game state with a well-formed 8x8 board, its en-passant target unset or
  a square of the board as in every state the engine produces, \<open>gameStateToFEN\<close>
  returns a text and \<open>FENToGameState\<close> decodes that text to a state with the same piece
  kind and colour on every square, the same side to move, the same four castling rights
  and the same en-passant target.
\<close>

theorem fen_round_trip:
  assumes wf: "wellFormedBoard (board p)"
    and ep: "case enPassantTarget p of None \<Rightarrow> True | Some e \<Rightarrow> isValidPosition e"
  shows "\<exists>fen q. gameStateToFEN p = Some fen \<and> FENToGameState fen = Decoded q \<and>
     (\<forall>r c. 0 \<le> r \<and> r < 8 \<and> 0 \<le> c \<and> c < 8 \<longrightarrow>
        (\<exists>x y. boardRead (board p) r c = Some x \<and> boardRead (board q) r c = Some y \<and>
               map_option ptype x = map_option ptype y \<and>
               map_option color x = map_option color y)) \<and>
     currentPlayer q = currentPlayer p \<and>
     castlingRights q = castlingRights p \<and>
     enPassantTarget q = enPassantTarget p"
proof -
  define ranks where "ranks = map (\<lambda>i. the (rowText (board p ! i) 0)) [0 ..< 8]"
  obtain placement where pl: "fenRowLoop (board p) [0..7] = Some placement"
    and sp: "splitOn CHR ''/'' placement = ranks" and pls: "CHR '' '' \<notin> set placement"
    using fenRowLoop_suffix[OF wf, of 0 8] unfolding ranks_def by auto
  define side where "side = (if currentPlayer p = White then ''w'' else ''b'')"
  define castling where "castling = (if whiteKingSide (castlingRights p) then ''K'' else [])
                        @ (if whiteQueenSide (castlingRights p) then ''Q'' else [])
                        @ (if blackKingSide (castlingRights p) then ''k'' else [])
                        @ (if blackQueenSide (castlingRights p) then ''q'' else [])"
  define cfield where "cfield = (if castling = [] then ''-'' else castling)"
  define efield where "efield = (case enPassantTarget p of
      None \<Rightarrow> ''-'' | Some e \<Rightarrow> positionToChessNotation e)"
  define full where "full = natToString (length (moveHistory p) div 2 + 1)"
  define fen where "fen = placement @ CHR '' '' # side @ CHR '' '' # cfield @ CHR '' '' # efield
      @ CHR '' '' # ''0'' @ CHR '' '' # full"
  have enc: "gameStateToFEN p = Some fen"
    unfolding gameStateToFEN_def fen_def side_def cfield_def castling_def efield_def full_def
    by (simp add: pl Let_def)
  have sides: "CHR '' '' \<notin> set side" by (simp add: side_def)
  have cs: "CHR '' '' \<notin> set cfield"
    and rights: "\<lparr>whiteKingSide = CHR ''K'' \<in> set cfield, whiteQueenSide = CHR ''Q'' \<in> set cfield,
          blackKingSide = CHR ''k'' \<in> set cfield, blackQueenSide = CHR ''q'' \<in> set cfield\<rparr>
        = castlingRights p"
    unfolding cfield_def castling_def by (rule castling_round_trip)+
  have es: "CHR '' '' \<notin> set efield"
    and target: "(if efield \<noteq> ''-'' then Some (chessNotationToPosition efield) else None) =
        (case enPassantTarget p of None \<Rightarrow> None | Some e \<Rightarrow> Some (Some e))"
  proof -
    show "CHR '' '' \<notin> set efield"
      using ep label_round_trip unfolding efield_def by (fastforce split: option.splits)
    show "(if efield \<noteq> ''-'' then Some (chessNotationToPosition efield) else None) =
        (case enPassantTarget p of None \<Rightarrow> None | Some e \<Rightarrow> Some (Some e))"
      using ep label_round_trip unfolding efield_def by (fastforce split: option.splits)
  qed
  have fs: "CHR '' '' \<notin> set full" unfolding full_def by (rule natToString_plain)
  have parts: "splitOn CHR '' '' fen = [placement, side, cfield, efield, ''0'', full]"
    unfolding fen_def
    by (simp add: splitOn_append[OF pls] splitOn_append[OF sides] splitOn_append[OF cs]
        splitOn_append[OF es] splitOn_append[of "CHR '' ''" "''0''"] splitOn_plain[OF fs])
  have len: "length ranks = 8" by (simp add: ranks_def)
  have "distinct [0..7::int]" by simp
  moreover have "\<forall>r \<in> set [0..7]. 0 \<le> r \<and> r < int (length (replicate 8 (replicate 8 (None :: Cell))))
      \<and> r < int (length ranks)"
    using len by simp
  ultimately obtain b' where b': "fenRankLoop (replicate 8 (replicate 8 None)) ranks [0..7] = Some b'"
    and lb: "length b' = 8"
    and rows: "\<forall>r \<in> set [0..7]. b' ! nat r =
        rowParse (replicate 8 (replicate 8 None) ! nat r) r 0 (ranks ! nat r)"
    using fenRankLoop_rows[of "[0..7]" "replicate 8 (replicate 8 None)" ranks] by auto
  define q where "q = \<lparr>board = b',
      currentPlayer = currentPlayer p, moveHistory = [],
      capturedPieces = [], gameStatus = Playing, winner = None, lastMove = None,
      enPassantTarget = enPassantTarget p, castlingRights = castlingRights p\<rparr>"
  have active: "(if side = ''w'' then White else Black) = currentPlayer p"
    by (cases "currentPlayer p") (simp_all add: side_def)
  have dec: "FENToGameState fen = Decoded q"
  proof (cases "enPassantTarget p")
    case None
    with target have "efield = ''-''" by (simp split: if_splits)
    then show ?thesis
      unfolding FENToGameState_def parts using rights active None
      by (simp add: Let_def sp b' q_def)
  next
    case (Some e)
    with target have "efield \<noteq> ''-''" "chessNotationToPosition efield = Some e"
      by (simp_all split: if_splits)
    then show ?thesis
      unfolding FENToGameState_def parts using rights active Some
      by (simp add: Let_def sp b' q_def)
  qed
  have cells: "\<exists>x y. boardRead (board p) r c = Some x \<and> boardRead (board q) r c = Some y \<and>
               map_option ptype x = map_option ptype y \<and>
               map_option color x = map_option color y"
    if rc: "0 \<le> r" "r < 8" "0 \<le> c" "c < 8" for r c
  proof -
    have nr: "nat r < 8" using rc by simp
    have lp: "length (board p) = 8" using wf by (simp add: wellFormedBoard_def)
    have lrow: "length (board p ! nat r) = 8"
      and ok: "list_all (\<lambda>x. map_option ptype x \<noteq> Some NoType) (board p ! nat r)"
      using wellFormedBoard_row[OF wf nr] by simp_all
    obtain t where t: "rowText (board p ! nat r) 0 = Some t"
      using rowText_plain[OF ok, of 0] by blast
    have rk: "ranks ! nat r = t" using nr t by (simp add: ranks_def)
    have row': "b' ! nat r = rowParse (replicate 8 None) r 0 t"
      using rows rc nr rk by simp
    have kinds: "map cellKind (b' ! nat r) = map cellKind (board p ! nat r)"
      using rowParse_rowText[OF ok t, of "[]" r] lrow row' by simp
    then have lq: "length (b' ! nat r) = 8" using lrow by (metis length_map)
    have nc: "nat c < 8" using rc by simp
    have "cellKind (b' ! nat r ! nat c) = map cellKind (b' ! nat r) ! nat c"
      using nc lq by simp
    also have "\<dots> = map cellKind (board p ! nat r) ! nat c" by (simp only: kinds)
    also have "\<dots> = cellKind (board p ! nat r ! nat c)" using nc lrow by simp
    finally have "cellKind (b' ! nat r ! nat c) = cellKind (board p ! nat r ! nat c)" .
    moreover have "boardRead (board p) r c = Some (board p ! nat r ! nat c)"
      using rc lp lrow by (simp add: boardRead_def rowRead_def)
    moreover have "boardRead (board q) r c = Some (b' ! nat r ! nat c)"
      using rc lb lq by (simp add: boardRead_def rowRead_def q_def)
    ultimately show ?thesis
      by (cases "b' ! nat r ! nat c"; cases "board p ! nat r ! nat c") (auto simp: cellKind_def)
  qed
  show ?thesis
    using enc dec cells by (intro exI[of _ fen] exI[of _ q]) (simp add: q_def)
qed

text \<open>At a concrete input: the position after 1. e4, with its en-passant target e3.\<close>

theorem fen_round_trip_witness:
  "wellFormedBoard (board afterE4) \<and>
   enPassantTarget afterE4 = Some \<lparr>row = 5, col = 4\<rparr> \<and>
   isValidPosition \<lparr>row = 5, col = 4\<rparr> \<and>
   gameStateToFEN afterE4 = Some ''rnbqkbnr/pppppppp/8/8/4P3/8/PPPP1PPP/RNBQKBNR b KQkq e3 0 1'' \<and>
   (\<exists>q. FENToGameState ''rnbqkbnr/pppppppp/8/8/4P3/8/PPPP1PPP/RNBQKBNR b KQkq e3 0 1'' = Decoded q \<and>
        map_option (map_option ptype) (boardRead (board q) 4 4) = Some (Some Pawn) \<and>
        map_option (map_option color) (boardRead (board q) 4 4) = Some (Some White) \<and>
        currentPlayer q = Black \<and> castlingRights q = allCastling \<and>
        enPassantTarget q = Some \<lparr>row = 5, col = 4\<rparr>)"
proof -
  have wf: "wellFormedBoard (board afterE4)" by code_simp
  have e: "enPassantTarget afterE4 = Some \<lparr>row = 5, col = 4\<rparr>"
    by (simp add: afterE4_def gameAt_def)
  have v: "isValidPosition \<lparr>row = 5, col = 4\<rparr>" by (simp add: isValidPosition_def)
  have f: "gameStateToFEN afterE4 =
      Some ''rnbqkbnr/pppppppp/8/8/4P3/8/PPPP1PPP/RNBQKBNR b KQkq e3 0 1''"
    by code_simp
  have c: "boardRead (board afterE4) 4 4 = Some (pieceOf Pawn White ''P-6-4'' True)"
    "currentPlayer afterE4 = Black" "castlingRights afterE4 = allCastling"
    by code_simp+
  have "case enPassantTarget afterE4 of None \<Rightarrow> True | Some e \<Rightarrow> isValidPosition e"
    using e v by simp
  from fen_round_trip[OF wf this] obtain q where
    q: "FENToGameState ''rnbqkbnr/pppppppp/8/8/4P3/8/PPPP1PPP/RNBQKBNR b KQkq e3 0 1'' = Decoded q"
    and cells: "\<forall>r c. 0 \<le> r \<and> r < 8 \<and> 0 \<le> c \<and> c < 8 \<longrightarrow>
        (\<exists>x y. boardRead (board afterE4) r c = Some x \<and> boardRead (board q) r c = Some y \<and>
               map_option ptype x = map_option ptype y \<and>
               map_option color x = map_option color y)"
    and rest: "currentPlayer q = currentPlayer afterE4" "castlingRights q = castlingRights afterE4"
      "enPassantTarget q = enPassantTarget afterE4"
    unfolding f by auto
  from cells[rule_format, of 4 4] c(1)
  obtain y where "boardRead (board q) 4 4 = Some y"
    "Some Pawn = map_option ptype y" "Some White = map_option color y"
    by (auto simp: pieceOf_def)
  then have "map_option (map_option ptype) (boardRead (board q) 4 4) = Some (Some Pawn)"
    "map_option (map_option color) (boardRead (board q) 4 4) = Some (Some White)"
    by (simp_all add: eq_commute[of "Some _" "map_option _ y"])
  then show ?thesis using wf e v f q rest c by auto
qed

text \<open>
  The condition on the target is used. A position record is a pair of numbers, and
  for a target off the board, which no move produces, the label of row \<open>-2\<close> is written
  with two digits and read back from its first.
\<close>

lemma off_board_target_label:
  "wellFormedBoard (board offBoardTarget) \<and>
   enPassantTarget offBoardTarget = Some \<lparr>row = - 2, col = 0\<rparr> \<and>
   gameStateToFEN offBoardTarget = Some ''4k3/8/8/8/8/8/8/R3K2R w KQkq a10 0 1'' \<and>
   (case FENToGameState ''4k3/8/8/8/8/8/8/R3K2R w KQkq a10 0 1'' of
      Decoded q \<Rightarrow> enPassantTarget q = Some \<lparr>row = 7, col = 0\<rparr>
    | _ \<Rightarrow> False)"
  by code_simp

subsection \<open>C9: text that is not a position\<close>

text \<open>A character that is no digit is on the row the loop leaves, where the column counter stood.\<close>

lemma parseInt_digit_pos:
  assumes "CHR ''1'' = ch \<or> CHR ''2'' = ch \<or> CHR ''3'' = ch \<or> CHR ''4'' = ch \<or>
         CHR ''5'' = ch \<or> CHR ''6'' = ch \<or> CHR ''7'' = ch \<or> CHR ''8'' = ch"
  shows "\<exists>n. parseInt (Some ch) = Some n \<and> 0 < n"
  using assms by (elim disjE) (auto simp: parseInt_def)

lemma columnAfter_mono: "c \<le> columnAfter c s"
proof (induction s arbitrary: c)
  case Nil
  show ?case by simp
next
  case (Cons ch s)
  show ?case
  proof (cases "CHR ''1'' = ch \<or> CHR ''2'' = ch \<or> CHR ''3'' = ch \<or> CHR ''4'' = ch \<or>
         CHR ''5'' = ch \<or> CHR ''6'' = ch \<or> CHR ''7'' = ch \<or> CHR ''8'' = ch")
    case True
    from parseInt_digit_pos[OF True] obtain n where n: "parseInt (Some ch) = Some n" "0 < n"
      by blast
    have "c + n \<le> columnAfter (c + n) s" by (rule Cons.IH)
    with n True show ?thesis by simp
  next
    case False
    have "c + 1 \<le> columnAfter (c + 1) s" by (rule Cons.IH)
    with False show ?thesis by simp
  qed
qed

lemma rowParse_append:
  "rowParse cells r c (pre @ rest) = rowParse (rowParse cells r c pre) r (columnAfter c pre) rest"
proof (induction pre arbitrary: cells c)
  case Nil
  show ?case by simp
next
  case (Cons ch pre)
  show ?case
  proof (cases "CHR ''1'' = ch \<or> CHR ''2'' = ch \<or> CHR ''3'' = ch \<or> CHR ''4'' = ch \<or>
         CHR ''5'' = ch \<or> CHR ''6'' = ch \<or> CHR ''7'' = ch \<or> CHR ''8'' = ch")
    case True
    from parseInt_digit_pos[OF True] obtain n where n: "parseInt (Some ch) = Some n" by blast
    with True Cons.IH[of cells "c + n"] show ?thesis by simp
  next
    case False
    with Cons.IH show ?thesis by simp
  qed
qed

lemma rowParse_below:
  "k < c \<Longrightarrow> rowRead (rowParse cells r c s) k = rowRead cells k"
proof (induction s arbitrary: cells c)
  case Nil
  show ?case by simp
next
  case (Cons ch s)
  show ?case
  proof (cases "CHR ''1'' = ch \<or> CHR ''2'' = ch \<or> CHR ''3'' = ch \<or> CHR ''4'' = ch \<or>
         CHR ''5'' = ch \<or> CHR ''6'' = ch \<or> CHR ''7'' = ch \<or> CHR ''8'' = ch")
    case True
    from parseInt_digit_pos[OF True] obtain n where n: "parseInt (Some ch) = Some n" "0 < n"
      by blast
    with Cons.prems have "k < c + n" by simp
    from Cons.IH[OF this, of cells] n True show ?thesis by simp
  next
    case False
    from Cons.prems have "k < c + 1" by simp
    from Cons.IH[OF this] False Cons.prems show ?thesis
      by (simp add: rowRead_rowWrite)
  qed
qed

lemma rowParse_stores:
  assumes "0 \<le> c" and nd: "ch \<notin> set ''12345678''"
  shows "rowRead (rowParse cells r c (pre @ ch # post)) (columnAfter c pre) =
     Some (FENCharToPiece ch
       ([ch] @ ''-'' @ intToString r @ ''-'' @ intToString (columnAfter c pre)))"
proof -
  define k where "k = columnAfter c pre"
  have k: "0 \<le> k" using columnAfter_mono[of c pre] assms(1) by (simp add: k_def)
  from nd have nd': "\<not> (CHR ''1'' = ch \<or> CHR ''2'' = ch \<or> CHR ''3'' = ch \<or> CHR ''4'' = ch \<or>
         CHR ''5'' = ch \<or> CHR ''6'' = ch \<or> CHR ''7'' = ch \<or> CHR ''8'' = ch)"
    by auto
  have "rowRead (rowParse cells r c (pre @ ch # post)) k =
      rowRead (rowParse (rowParse cells r c pre) r k (ch # post)) k"
    by (simp only: rowParse_append k_def)
  also have "\<dots> = rowRead (rowWrite (rowParse cells r c pre) k
      (Some (FENCharToPiece ch ([ch] @ ''-'' @ intToString r @ ''-'' @ intToString k)))) k"
    using nd' by (simp add: rowParse_below)
  also have "\<dots> = Some (FENCharToPiece ch ([ch] @ ''-'' @ intToString r @ ''-'' @ intToString k))"
    using k by (simp add: rowRead_rowWrite)
  finally show ?thesis by (simp only: k_def)
qed

lemma fenRankLoop_None_iff:
  "\<forall>r \<in> set rs. 0 \<le> r \<and> r < int (length b) \<Longrightarrow>
   fenRankLoop b ranks rs = None \<longleftrightarrow> (\<exists>r \<in> set rs. \<not> r < int (length ranks))"
proof (induction rs arbitrary: b)
  case Nil
  then show ?case by simp
next
  case (Cons r rs)
  define b1 where "b1 = b[nat r := rowParse (b ! nat r) r 0 (ranks ! nat r)]"
  have r: "0 \<le> r" "r < int (length b)" using Cons.prems by simp_all
  have cl: "fenCharLoop b r 0 (ranks ! nat r) = Some b1"
    unfolding b1_def by (rule fenCharLoop_rowParse[OF r])
  have "\<forall>q \<in> set rs. 0 \<le> q \<and> q < int (length b1)"
    using Cons.prems by (simp add: b1_def)
  from Cons.IH[OF this] show ?case
    using r cl by auto
qed

text \<open>
  C9 as stated fails both ways: a text with the placement field only makes
  \<open>FENToGameState\<close> throw, and a text with the letter \<open>x\<close> in place of a piece is decoded
  to a game state, with a piece of undefined kind on that square.
\<close>

theorem decode_without_failure:
  "FENToGameState ''rnbqkbnr/pppppppp/8/8/8/8/PPPPPPPP/RNBQKBNR'' = TypeError \<and>
   (case FENToGameState ''xnbqkbnr/pppppppp/8/8/8/8/PPPPPPPP/RNBQKBNR w KQkq - 0 1'' of
      Decoded q \<Rightarrow>
        boardRead (board q) 0 0 =
          Some (Some \<lparr>ptype = NoType, color = Black, pid = ''x-0-0'', hasMoved = False\<rparr>)
    | _ \<Rightarrow> False)"
  by code_simp

text \<open>
  C9, amended. \<open>FENToGameState\<close> has no decode-failure result. It throws a
  \<open>TypeError\<close> exactly when the text has fewer than four fields separated by spaces or
  its first field has fewer than eight ranks separated by \<open>/\<close>; every other text is
  decoded to a state. In that state every character of the first eight ranks that is
  not a digit from 1 to 8 stands on the grid as a piece: in the row of its rank, at the
  column the characters before it lead to, with the kind \<open>typeMap\<close> gives, the
  identifier made of the character, the row and the column, and not moved. When the
  character is none of \<open>kqrbnp\<close> in either case the kind of that piece is undefined.
\<close>

theorem FENToGameState_throws_iff:
  "(FENToGameState fen = TypeError \<longleftrightarrow>
      length (splitOn CHR '' '' fen) < 4 \<or>
      length (splitOn CHR ''/'' (splitOn CHR '' '' fen ! 0)) < 8) \<and>
   (\<forall>r pre ch post.
      FENToGameState fen \<noteq> TypeError \<and> r < 8 \<and>
      splitOn CHR ''/'' (splitOn CHR '' '' fen ! 0) ! r = pre @ ch # post \<and>
      ch \<notin> set ''12345678'' \<longrightarrow>
      (\<exists>b pc. decodedBoard (FENToGameState fen) = Some b \<and>
         boardRead b (int r) (columnAfter 0 pre) = Some (Some pc) \<and>
         ptype pc = typeMap (toLowerCase ch) \<and>
         pid pc = [ch] @ ''-'' @ intToString (int r) @ ''-'' @ intToString (columnAfter 0 pre) \<and>
         \<not> hasMoved pc \<and>
         (toLowerCase ch \<notin> set ''kqrbnp'' \<longrightarrow> ptype pc = NoType)))"
proof
  define parts where "parts = splitOn CHR '' '' fen"
  define ranks where "ranks = splitOn CHR ''/'' (parts ! 0)"
  have "fenRankLoop (replicate 8 (replicate 8 None)) ranks [0..7] = None \<longleftrightarrow>
      (\<exists>r \<in> set [0..7]. \<not> r < int (length ranks))"
    by (rule fenRankLoop_None_iff) simp
  also have "\<dots> \<longleftrightarrow> length ranks < 8" by auto
  finally have loop: "fenRankLoop (replicate 8 (replicate 8 None)) ranks [0..7] = None \<longleftrightarrow>
      length ranks < 8" .
  show throws: "FENToGameState fen = TypeError \<longleftrightarrow>
      length (splitOn CHR '' '' fen) < 4 \<or>
      length (splitOn CHR ''/'' (splitOn CHR '' '' fen ! 0)) < 8"
    unfolding FENToGameState_def parts_def[symmetric] Let_def ranks_def[symmetric]
    using loop by (auto split: option.splits)
  show "\<forall>r pre ch post.
      FENToGameState fen \<noteq> TypeError \<and> r < 8 \<and>
      splitOn CHR ''/'' (splitOn CHR '' '' fen ! 0) ! r = pre @ ch # post \<and>
      ch \<notin> set ''12345678'' \<longrightarrow>
      (\<exists>b pc. decodedBoard (FENToGameState fen) = Some b \<and>
         boardRead b (int r) (columnAfter 0 pre) = Some (Some pc) \<and>
         ptype pc = typeMap (toLowerCase ch) \<and>
         pid pc = [ch] @ ''-'' @ intToString (int r) @ ''-'' @ intToString (columnAfter 0 pre) \<and>
         \<not> hasMoved pc \<and>
         (toLowerCase ch \<notin> set ''kqrbnp'' \<longrightarrow> ptype pc = NoType))"
  proof (intro allI impI, elim conjE)
    fix r :: nat and pre ch post
    assume ok: "FENToGameState fen \<noteq> TypeError" and r: "r < 8"
      and rank: "splitOn CHR ''/'' (splitOn CHR '' '' fen ! 0) ! r = pre @ ch # post"
      and nd: "ch \<notin> set ''12345678''"
    from ok throws have lp: "\<not> length parts < 4" and lr: "\<not> length ranks < 8"
      by (simp_all add: parts_def ranks_def)
    have "distinct [0..7::int]" by simp
    moreover have "\<forall>q \<in> set [0..7].
        0 \<le> q \<and> q < int (length (replicate 8 (replicate 8 (None :: Cell)))) \<and> q < int (length ranks)"
      using lr by simp
    ultimately obtain b where b: "fenRankLoop (replicate 8 (replicate 8 None)) ranks [0..7] = Some b"
      and lb: "length b = 8"
      and rows: "\<forall>q \<in> set [0..7]. b ! nat q =
        rowParse (replicate 8 (replicate 8 None) ! nat q) q 0 (ranks ! nat q)"
      using fenRankLoop_rows[of "[0..7]" "replicate 8 (replicate 8 None)" ranks] by auto
    have dec: "decodedBoard (FENToGameState fen) = Some b"
      unfolding FENToGameState_def parts_def[symmetric] Let_def ranks_def[symmetric]
      using lp b by (simp split: option.splits)
    define ident where
      "ident = [ch] @ ''-'' @ intToString (int r) @ ''-'' @ intToString (columnAfter 0 pre)"
    have "int r \<in> set [0..7]" using r by simp
    with rows have "b ! nat (int r) =
        rowParse (replicate 8 (replicate 8 None) ! nat (int r)) (int r) 0 (ranks ! nat (int r))"
      by blast
    then have row: "b ! r = rowParse (replicate 8 None) (int r) 0 (pre @ ch # post)"
      using r rank by (simp add: ranks_def parts_def)
    have "boardRead b (int r) (columnAfter 0 pre) = Some (rowRead (b ! r) (columnAfter 0 pre))"
      using r lb by (simp add: boardRead_def)
    also have "rowRead (b ! r) (columnAfter 0 pre) = Some (FENCharToPiece ch ident)"
      unfolding row ident_def by (rule rowParse_stores[OF _ nd]) simp
    finally have rd: "boardRead b (int r) (columnAfter 0 pre) = Some (Some (FENCharToPiece ch ident))" .
    have "ptype (FENCharToPiece ch ident) = typeMap (toLowerCase ch)"
      "pid (FENCharToPiece ch ident) = ident" "\<not> hasMoved (FENCharToPiece ch ident)"
      "toLowerCase ch \<notin> set ''kqrbnp'' \<longrightarrow> ptype (FENCharToPiece ch ident) = NoType"
      by (simp_all add: FENCharToPiece_def typeMap_def)
    with dec rd show "\<exists>b pc. decodedBoard (FENToGameState fen) = Some b \<and>
         boardRead b (int r) (columnAfter 0 pre) = Some (Some pc) \<and>
         ptype pc = typeMap (toLowerCase ch) \<and>
         pid pc = [ch] @ ''-'' @ intToString (int r) @ ''-'' @ intToString (columnAfter 0 pre) \<and>
         \<not> hasMoved pc \<and>
         (toLowerCase ch \<notin> set ''kqrbnp'' \<longrightarrow> ptype pc = NoType)"
      unfolding ident_def by blast
  qed
qed

text \<open>
  At concrete inputs: the placement alone throws, and in \<open>1x6/8/8/8/8/8/8/8 w - - 0 1\<close>
  the letter \<open>x\<close> is the piece \<open>x-0-1\<close> of undefined kind on the second square of the
  first row.
\<close>

theorem FENToGameState_throws_iff_witness:
  "length (splitOn CHR '' '' ''8/8/8/8/8/8/8/8'') < 4 \<and>
   FENToGameState ''8/8/8/8/8/8/8/8'' = TypeError \<and>
   FENToGameState ''1x6/8/8/8/8/8/8/8 w - - 0 1'' \<noteq> TypeError \<and>
   splitOn CHR ''/'' (splitOn CHR '' '' ''1x6/8/8/8/8/8/8/8 w - - 0 1'' ! 0) ! 0 = ''1'' @ CHR ''x'' # ''6'' \<and>
   CHR ''x'' \<notin> set ''12345678'' \<and>
   toLowerCase CHR ''x'' \<notin> set ''kqrbnp'' \<and>
   (\<exists>b pc. decodedBoard (FENToGameState ''1x6/8/8/8/8/8/8/8 w - - 0 1'') = Some b \<and>
      boardRead b 0 1 = Some (Some pc) \<and> ptype pc = NoType \<and> pid pc = ''x-0-1'' \<and>
      \<not> hasMoved pc)"
proof -
  have l: "length (splitOn CHR '' '' ''8/8/8/8/8/8/8/8'') < 4" by code_simp
  have t: "FENToGameState ''8/8/8/8/8/8/8/8'' = TypeError"
    using FENToGameState_throws_iff[of "''8/8/8/8/8/8/8/8''"] l by blast
  have n: "\<not> (length (splitOn CHR '' '' ''1x6/8/8/8/8/8/8/8 w - - 0 1'') < 4 \<or>
      length (splitOn CHR ''/'' (splitOn CHR '' '' ''1x6/8/8/8/8/8/8/8 w - - 0 1'' ! 0)) < 8)"
    by code_simp
  have ok: "FENToGameState ''1x6/8/8/8/8/8/8/8 w - - 0 1'' \<noteq> TypeError"
    using FENToGameState_throws_iff[of "''1x6/8/8/8/8/8/8/8 w - - 0 1''"] n by blast
  have rank: "splitOn CHR ''/'' (splitOn CHR '' '' ''1x6/8/8/8/8/8/8/8 w - - 0 1'' ! 0) ! 0 =
      ''1'' @ CHR ''x'' # ''6''"
    by code_simp
  have nd: "CHR ''x'' \<notin> set ''12345678''" by simp
  have x: "toLowerCase CHR ''x'' \<notin> set ''kqrbnp''" by code_simp
  have c: "columnAfter 0 ''1'' = 1" by code_simp
  have i: "[CHR ''x''] @ ''-'' @ intToString (int 0) @ ''-'' @ intToString 1 = ''x-0-1''"
    by code_simp
  from FENToGameState_throws_iff[of "''1x6/8/8/8/8/8/8/8 w - - 0 1''", THEN conjunct2,
      rule_format, of 0 "''1''" "CHR ''x''" "''6''"] ok rank nd x
  obtain b pc where "decodedBoard (FENToGameState ''1x6/8/8/8/8/8/8/8 w - - 0 1'') = Some b"
    "boardRead b (int 0) (columnAfter 0 ''1'') = Some (Some pc)" "ptype pc = NoType"
    "pid pc = [CHR ''x''] @ ''-'' @ intToString (int 0) @ ''-'' @ intToString (columnAfter 0 ''1'')"
    "\<not> hasMoved pc"
    by auto
  then have "\<exists>b pc. decodedBoard (FENToGameState ''1x6/8/8/8/8/8/8/8 w - - 0 1'') = Some b \<and>
      boardRead b 0 1 = Some (Some pc) \<and> ptype pc = NoType \<and> pid pc = ''x-0-1'' \<and>
      \<not> hasMoved pc"
    unfolding c i by auto
  with l t ok rank nd x show ?thesis by blast
qed

end
